theory Spec2Isabelle
  imports Complex_Main "HOL-Library.AList"
begin

section \<open>Python values\<close>

text \<open>
  The program works on JSON-like values: the payloads read by \<^verbatim>\<open>json.load\<close>, the
  records returned by the spreadsheet client and the rows sent to it. A \<^verbatim>\<open>dict\<close> with
  string keys is an association list in insertion order. A \<^verbatim>\<open>str\<close> is the list of its
  code points; the model covers the code points below 256.
\<close>

datatype pyval =
    PNone
  | PBool bool
  | PInt int
  | PFloat real
  | PStr string
  | PList "pyval list"
  | PDict "(string \<times> pyval) list"

datatype error = AttributeError | TypeError | ValueError | OverflowError | IndexError

text \<open>Truth value testing, as \<^verbatim>\<open>if v\<close>, \<^verbatim>\<open>not v\<close> and \<^verbatim>\<open>a or b\<close> use it.\<close>

fun truthy :: "pyval \<Rightarrow> bool" where
  "truthy PNone = False"
| "truthy (PBool b) = b"
| "truthy (PInt i) = (i \<noteq> 0)"
| "truthy (PFloat x) = (x \<noteq> 0)"
| "truthy (PStr s) = (s \<noteq> [])"
| "truthy (PList xs) = (xs \<noteq> [])"
| "truthy (PDict d) = (d \<noteq> [])"

definition py_or :: "pyval \<Rightarrow> pyval \<Rightarrow> pyval" where
  "py_or a b = (if truthy a then a else b)"

text \<open>\<^verbatim>\<open>d.get(k)\<close> on a dict: the value, or \<^verbatim>\<open>None\<close> when the key is missing.\<close>

definition dget :: "(string \<times> pyval) list \<Rightarrow> string \<Rightarrow> pyval" where
  "dget d k = (case map_of d k of None \<Rightarrow> PNone | Some v \<Rightarrow> v)"

text \<open>\<^verbatim>\<open>v.get(k)\<close> on any value: only a dict has the method.\<close>

fun attr_get :: "pyval \<Rightarrow> string \<Rightarrow> error + pyval" where
  "attr_get (PDict d) k = Inr (dget d k)"
| "attr_get _ k = Inl AttributeError"

section \<open>Strings\<close>

text \<open>\<^verbatim>\<open>str.lower\<close>: the upper-case letters below 256 are A..Z and 0xC0..0xDE without 0xD7;
  the lower-case letter is 32 above, which in these ranges is setting bit 5.\<close>

fun set_bit5 :: "char \<Rightarrow> char" where
  "set_bit5 (Char b0 b1 b2 b3 b4 b5 b6 b7) = Char b0 b1 b2 b3 b4 True b6 b7"

definition lower_char :: "char \<Rightarrow> char" where
  "lower_char c =
     (let n = (of_char c :: nat)
      in if (65 \<le> n \<and> n \<le> 90) \<or> (192 \<le> n \<and> n \<le> 222 \<and> n \<noteq> 215)
         then set_bit5 c else c)"

definition lower :: "string \<Rightarrow> string" where
  "lower s = map lower_char s"

text \<open>\<^verbatim>\<open>str.strip\<close> removes the white space of both ends: below 256 that is
  0x09..0x0D, 0x1C..0x20, 0x85 and 0xA0.\<close>

definition is_space :: "char \<Rightarrow> bool" where
  "is_space c =
     (let n = (of_char c :: nat)
      in (9 \<le> n \<and> n \<le> 13) \<or> (28 \<le> n \<and> n \<le> 32) \<or> n = 133 \<or> n = 160)"

definition strip :: "string \<Rightarrow> string" where
  "strip s = rev (dropWhile is_space (rev (dropWhile is_space s)))"

section \<open>Pull path: coercion of edited cells\<close>

text \<open>\<^verbatim>\<open>_coerce_bool\<close> of cli.py. \<^verbatim>\<open>bool\<close> is tested before \<^verbatim>\<open>int\<close>, as in the source.\<close>

fun coerce_bool :: "pyval \<Rightarrow> bool option" where
  "coerce_bool (PBool b) = Some b"
| "coerce_bool (PInt i) = Some (i \<noteq> 0)"
| "coerce_bool (PFloat x) = Some (x \<noteq> 0)"
| "coerce_bool (PStr s) =
     (let v = lower (strip s)
      in if v \<in> set [''true'', ''yes'', ''y'', ''1''] then Some True
         else if v \<in> set [''false'', ''no'', ''n'', ''0''] then Some False
         else None)"
| "coerce_bool _ = None"

section \<open>Built-in conversions\<close>

text \<open>\<^verbatim>\<open>str(n)\<close> of an integer: its decimal digits, with a minus sign when negative.\<close>

fun digits :: "nat \<Rightarrow> string" where
  "digits n = (if n < 10 then [''0123456789'' ! n] else digits (n div 10) @ [''0123456789'' ! (n mod 10)])"

declare digits.simps [simp del]

definition str_int :: "int \<Rightarrow> string" where
  "str_int i = (if i < 0 then CHR ''-'' # digits (nat (- i)) else digits (nat i))"

text \<open>
  \<^verbatim>\<open>str(v)\<close>. The text Python prints for a float, a list or a dict is not spelled out
  here: the parameter \<open>crepr\<close> stands for it.
\<close>

fun pystr :: "(pyval \<Rightarrow> string) \<Rightarrow> pyval \<Rightarrow> string" where
  "pystr crepr PNone = ''None''"
| "pystr crepr (PBool b) = (if b then ''True'' else ''False'')"
| "pystr crepr (PInt i) = str_int i"
| "pystr crepr (PStr s) = s"
| "pystr crepr v = crepr v"

text \<open>\<^verbatim>\<open>sep.join(parts)\<close>.\<close>

fun join :: "string \<Rightarrow> string list \<Rightarrow> string" where
  "join sep [] = []"
| "join sep [x] = x"
| "join sep (x # y # ys) = x @ sep @ join sep (y # ys)"

section \<open>Push path: the worksheet and the keyed upsert (connectors/sheets.py)\<close>

text \<open>
  The worksheet of the spreadsheet client is a grid of cell texts, one list per row,
  row 1 first. \<^verbatim>\<open>row_values\<close> and \<^verbatim>\<open>col_values\<close> return the texts of a row or a column
  (numbered from 1) without the empty cells at the end.
\<close>

type_synonym worksheet = "string list list"

definition trim_trailing :: "string list \<Rightarrow> string list" where
  "trim_trailing xs = rev (dropWhile (\<lambda>c. c = []) (rev xs))"

definition cell :: "string list \<Rightarrow> nat \<Rightarrow> string" where
  "cell row k = (if 1 \<le> k \<and> k \<le> length row then row ! (k - 1) else [])"

definition row_values :: "worksheet \<Rightarrow> nat \<Rightarrow> string list" where
  "row_values ws r = (if 1 \<le> r \<and> r \<le> length ws then trim_trailing (ws ! (r - 1)) else [])"

definition col_values :: "worksheet \<Rightarrow> nat \<Rightarrow> string list" where
  "col_values ws k = trim_trailing (map (\<lambda>row. cell row k) ws)"

text \<open>\<^verbatim>\<open>xs.index(x)\<close> for an \<open>x\<close> that occurs in \<open>xs\<close>: the first position, from 0.\<close>

fun index_of :: "'a list \<Rightarrow> 'a \<Rightarrow> nat" where
  "index_of [] x = 0"
| "index_of (y # ys) x = (if y = x then 0 else Suc (index_of ys x))"

text \<open>The loop of \<^verbatim>\<open>read_index_by_key\<close>: \<^verbatim>\<open>for i, val in enumerate(column_values, start=2)\<close>.\<close>

fun index_loop :: "(string \<rightharpoonup> nat) \<Rightarrow> nat \<Rightarrow> string list \<Rightarrow> (string \<rightharpoonup> nat)" where
  "index_loop idx i [] = idx"
| "index_loop idx i (val # vals) = index_loop (if val \<noteq> [] then idx(val \<mapsto> i) else idx) (Suc i) vals"

definition read_index_by_key :: "worksheet \<Rightarrow> string \<Rightarrow> (string \<rightharpoonup> nat)" where
  "read_index_by_key ws key_col_name =
     (let headers = row_values ws 1
      in if key_col_name \<notin> set headers then Map.empty
         else let key_idx = index_of headers key_col_name + 1;
                  column_values = tl (col_values ws key_idx)
              in index_loop Map.empty 2 column_values)"

text \<open>
  \<^verbatim>\<open>_normalize_row\<close>: one cell per header. \<open>dumps\<close> stands for
  \<^verbatim>\<open>json.dumps(v, ensure_ascii=False)\<close>.
\<close>

definition normalize_cell :: "(pyval \<Rightarrow> string) \<Rightarrow> (pyval \<Rightarrow> string) \<Rightarrow> pyval \<Rightarrow> pyval" where
  "normalize_cell crepr dumps v =
     (case v of
        PList xs \<Rightarrow> PStr (join '', '' (map (pystr crepr) xs))
      | PDict d \<Rightarrow> PStr (dumps v)
      | _ \<Rightarrow> v)"

fun normalize_row :: "(pyval \<Rightarrow> string) \<Rightarrow> (pyval \<Rightarrow> string) \<Rightarrow> string list \<Rightarrow> (string \<times> pyval) list \<Rightarrow> pyval list" where
  "normalize_row crepr dumps [] row = []"
| "normalize_row crepr dumps (h # hs) row =
     (let v = dget row h in normalize_cell crepr dumps v # normalize_row crepr dumps hs row)"

text \<open>\<^verbatim>\<open>_col_letters\<close>: the column name of A1 notation.\<close>

function col_letters :: "nat \<Rightarrow> string" where
  "col_letters n =
     (if n > 0 then col_letters ((n - 1) div 26) @ [''ABCDEFGHIJKLMNOPQRSTUVWXYZ'' ! ((n - 1) mod 26)]
      else [])"
  by pat_completeness auto
termination
  by (relation "measure id") auto

declare col_letters.simps [simp del]

text \<open>
  The calls \<^verbatim>\<open>upsert_rows\<close> makes on the worksheet. An entry \<open>(row_num, vals)\<close> of a
  batched update stands for the range \<^verbatim>\<open>A<row_num>:<last_col><row_num>\<close> with the one row
  of values \<open>vals\<close>.
\<close>

datatype ws_call =
    Update_row1 "string list"
  | Resize nat
  | Batch_update "(nat \<times> pyval list) list"
  | Append_rows "pyval list list"

definition a1_range :: "string list \<Rightarrow> nat \<Rightarrow> string" where
  "a1_range headers row_num =
     ''A'' @ digits row_num @ '':'' @ col_letters (length headers) @ digits row_num"

text \<open>
  What the calls do to the grid. A written row replaces the first cells of its row;
  appended rows come after the last row. \<open>shown\<close> is the text the sheet shows for an
  entered value.
\<close>

definition write_row :: "worksheet \<Rightarrow> nat \<Rightarrow> string list \<Rightarrow> worksheet" where
  "write_row ws r vals =
     (let ws' = ws @ replicate (r - length ws) []
      in ws'[r - 1 := vals @ drop (length vals) (ws' ! (r - 1))])"

fun apply_call :: "(pyval \<Rightarrow> string) \<Rightarrow> ws_call \<Rightarrow> worksheet \<Rightarrow> worksheet" where
  "apply_call shown (Update_row1 headers) ws = write_row ws 1 headers"
| "apply_call shown (Resize n) ws = ws"
| "apply_call shown (Batch_update entries) ws =
     fold (\<lambda>(row_num, vals) w. write_row w row_num (map shown vals)) entries ws"
| "apply_call shown (Append_rows rows) ws = ws @ map (map shown) rows"

definition ensure_headers :: "worksheet \<Rightarrow> string list \<Rightarrow> ws_call list" where
  "ensure_headers ws headers =
     (let cur = row_values ws 1
      in if cur = headers then []
         else if cur = [] then [Update_row1 headers]
         else [Resize (max (length ws) 1), Update_row1 headers])"

text \<open>\<^verbatim>\<open>for i in range(0, len(xs), n): xs[i : i + n]\<close> for a positive step.\<close>

function chunks :: "nat \<Rightarrow> 'a list \<Rightarrow> 'a list list" where
  "chunks n xs = (if n = 0 \<or> xs = [] then [] else take n xs # chunks n (drop n xs))"
  by pat_completeness auto
termination
  by (relation "measure (\<lambda>(n, xs). length xs)") auto

declare chunks.simps [simp del]

text \<open>The loop over the records: the queued updates and the queued appends.\<close>

fun plan_rows :: "(pyval \<Rightarrow> string) \<Rightarrow> (pyval \<Rightarrow> string) \<Rightarrow> (string \<rightharpoonup> nat) \<Rightarrow> string list \<Rightarrow> string
    \<Rightarrow> (string \<times> pyval) list list \<Rightarrow> (nat \<times> pyval list) list \<times> pyval list list" where
  "plan_rows crepr dumps index headers key [] = ([], [])"
| "plan_rows crepr dumps index headers key (row # rows) =
     (let (updates, appends) = plan_rows crepr dumps index headers key rows
      in if \<not> truthy (dget row key) then (updates, appends)
         else let target_row = index (pystr crepr (dget row key));
                  vals = normalize_row crepr dumps headers row
              in (case target_row of
                    Some t \<Rightarrow> if t \<noteq> 0 then ((t, vals) # updates, appends) else (updates, vals # appends)
                  | None \<Rightarrow> (updates, vals # appends)))"

text \<open>
  \<^verbatim>\<open>upsert_rows\<close>: the calls made, in order, and the worksheet they leave.
  \<^verbatim>\<open>range(0, n, 0)\<close> raises ValueError, and a negative step gives no chunk at all.
\<close>

definition upsert_rows :: "(pyval \<Rightarrow> string) \<Rightarrow> (pyval \<Rightarrow> string) \<Rightarrow> (pyval \<Rightarrow> string) \<Rightarrow> worksheet \<Rightarrow> string list
    \<Rightarrow> (string \<times> pyval) list list \<Rightarrow> string \<Rightarrow> int \<Rightarrow> error + (ws_call list \<times> worksheet)" where
  "upsert_rows shown crepr dumps ws headers rows key batch_size =
     (let hcalls = ensure_headers ws headers;
          ws1 = fold (apply_call shown) hcalls ws;
          index = read_index_by_key ws1 key;
          (updates, appends) = plan_rows crepr dumps index headers key rows
      in if batch_size = 0 then Inl ValueError
         else let ucalls = (if batch_size < 0 then [] else map Batch_update (chunks (nat batch_size) updates));
                  acalls = (if batch_size < 0 then [] else map Append_rows (chunks (nat batch_size) appends));
                  calls = hcalls @ ucalls @ acalls
              in Inr (calls, fold (apply_call shown) (ucalls @ acalls) ws1))"

text \<open>The position (from 0) of the last occurrence of a value in a list.\<close>

definition is_last_at :: "string list \<Rightarrow> string \<Rightarrow> nat \<Rightarrow> bool" where
  "is_last_at vals v q \<longleftrightarrow> q < length vals \<and> vals ! q = v \<and> (\<forall>j. q < j \<and> j < length vals \<longrightarrow> vals ! j \<noteq> v)"

text \<open>A small worksheet: the key column is the second one, row 3 has no key and the
  key a stands in rows 2 and 5.\<close>

definition example_sheet :: worksheet where
  "example_sheet =
     [[''title'', ''job_id''], [''t1'', ''a''], [''t2'', []], [''t3'', ''b''], [''t4'', ''a'']]"

text \<open>The batched updates and the appended batches among the calls made.\<close>

fun batch_updates_of :: "ws_call list \<Rightarrow> (nat \<times> pyval list) list list" where
  "batch_updates_of [] = []"
| "batch_updates_of (Batch_update entries # cs) = entries # batch_updates_of cs"
| "batch_updates_of (_ # cs) = batch_updates_of cs"

fun appends_of :: "ws_call list \<Rightarrow> pyval list list list" where
  "appends_of [] = []"
| "appends_of (Append_rows rows # cs) = rows # appends_of cs"
| "appends_of (_ # cs) = appends_of cs"

text \<open>For the examples: a sheet that shows an entered string as it is, and a \<open>crepr\<close> and a
  \<open>dumps\<close> with fixed texts (no example depends on them).\<close>

definition text_shown :: "pyval \<Rightarrow> string" where
  "text_shown v = (case v of PStr s \<Rightarrow> s | _ \<Rightarrow> [])"

definition fixed_repr :: "pyval \<Rightarrow> string" where
  "fixed_repr v = ''?''"

definition example_row :: "(string \<times> pyval) list" where
  "example_row =
     [(''job_id'', PStr ''a''), (''skills'', PList [PStr ''sql'', PInt 3]),
      (''relevance'', PDict [(''k'', PNone)])]"

section \<open>Batch metadata from the file name (processing.py)\<close>

definition between :: "char \<Rightarrow> char \<Rightarrow> char \<Rightarrow> bool" where
  "between lo hi c = ((of_char lo :: nat) \<le> of_char c \<and> (of_char c :: nat) \<le> of_char hi)"

definition is_digit :: "char \<Rightarrow> bool" where
  "is_digit c = between CHR ''0'' CHR ''9'' c"

text \<open>\<^verbatim>\<open>int(s)\<close> for a string of ASCII digits.\<close>

definition int_of_digits :: "string \<Rightarrow> nat" where
  "int_of_digits s = fold (\<lambda>c n. 10 * n + (of_char c - 48)) s 0"

fun strip_prefix :: "string \<Rightarrow> string \<Rightarrow> string option" where
  "strip_prefix [] s = Some s"
| "strip_prefix (p # ps) [] = None"
| "strip_prefix (p # ps) (c # cs) = (if p = c then strip_prefix ps cs else None)"

text \<open>
  The end anchor \<^verbatim>\<open>$\<close> of a pattern without the multi-line flag: the end of the string,
  or the position before a line feed that ends the string.
\<close>

definition at_end :: "string \<Rightarrow> bool" where
  "at_end s = (s = [] \<or> s = [CHR 0x0A])"

text \<open>The tail \<^verbatim>\<open>-page(?P<page>\d+)\.json$\<close> of the strict pattern: the page digits.\<close>

definition strict_tail :: "string \<Rightarrow> string option" where
  "strict_tail s =
     (case strip_prefix ''-page'' s of
        None \<Rightarrow> None
      | Some r \<Rightarrow>
          (let ds = takeWhile is_digit r
           in case strip_prefix ''.json'' (dropWhile is_digit r) of
                None \<Rightarrow> None
              | Some e \<Rightarrow> if ds \<noteq> [] \<and> at_end e then Some ds else None))"

text \<open>The tail \<^verbatim>\<open>-page(?:\.json)?$\<close> of the relaxed pattern, which has no page group.\<close>

definition relaxed_tail :: "string \<Rightarrow> string option" where
  "relaxed_tail s =
     (case strip_prefix ''-page'' s of
        None \<Rightarrow> None
      | Some r \<Rightarrow>
          (case strip_prefix ''.json'' r of
             Some e \<Rightarrow> if at_end e then Some [] else if at_end r then Some [] else None
           | None \<Rightarrow> if at_end r then Some [] else None))"

text \<open>
  The lazy group \<^verbatim>\<open>(?P<query>.*?)\<close> followed by a tail: the shortest query, of characters
  other than the line feed, after which the tail matches.
\<close>

fun lazy_query :: "(string \<Rightarrow> string option) \<Rightarrow> string \<Rightarrow> string \<Rightarrow> (string \<times> string) option" where
  "lazy_query tail q [] = (case tail [] of Some x \<Rightarrow> Some (q, x) | None \<Rightarrow> None)"
| "lazy_query tail q (c # cs) =
     (case tail (c # cs) of
        Some x \<Rightarrow> Some (q, x)
      | None \<Rightarrow> if c = CHR 0x0A then None else lazy_query tail (q @ [c]) cs)"

text \<open>
  \<^verbatim>\<open>^(?P<search_id>\d{14,17})-\<close> and the rest: the run of leading digits has 14 to 17 digits
  and a hyphen follows it (with fewer digits taken, a digit would follow, not the hyphen).
  The result is the digits, the query and the page digits (empty for the relaxed pattern).
\<close>

definition match_filename :: "(string \<Rightarrow> string option) \<Rightarrow> string \<Rightarrow> (string \<times> string \<times> string) option" where
  "match_filename tail filename =
     (let ds = takeWhile is_digit filename; r = dropWhile is_digit filename
      in if 14 \<le> length ds \<and> length ds \<le> 17
         then (case r of
                 c # cs \<Rightarrow> if c = CHR ''-''
                   then (case lazy_query tail [] cs of
                           Some (q, p) \<Rightarrow> Some (ds, q, p)
                         | None \<Rightarrow> None)
                   else None
               | [] \<Rightarrow> None)
         else None)"

section \<open>The time stamp: datetime.strptime with the format %Y%m%d%H%M%S%f\<close>

text \<open>
  \<^verbatim>\<open>strptime\<close> turns the format into a regular expression, one group per directive, and takes
  the first match the backtracking search finds: the alternatives of a group in the order
  written, and the digits of \<^verbatim>\<open>%f\<close> greedily. An alternative is a list of character classes;
  a group gives its candidates, the text matched and the rest, in that order.
\<close>

fun match_chars :: "(char \<Rightarrow> bool) list \<Rightarrow> string \<Rightarrow> (string \<times> string) option" where
  "match_chars [] s = Some ([], s)"
| "match_chars (p # ps) [] = None"
| "match_chars (p # ps) (c # cs) =
     (if p c then (case match_chars ps cs of Some (m, r) \<Rightarrow> Some (c # m, r) | None \<Rightarrow> None)
      else None)"

definition alternatives :: "(char \<Rightarrow> bool) list list \<Rightarrow> string \<Rightarrow> (string \<times> string) list" where
  "alternatives alts s = List.map_filter (\<lambda>ps. match_chars ps s) alts"

definition re_Y :: "string \<Rightarrow> (string \<times> string) list" where
  "re_Y = alternatives [[is_digit, is_digit, is_digit, is_digit]]"

definition re_m :: "string \<Rightarrow> (string \<times> string) list" where
  "re_m = alternatives
     [[(=) CHR ''1'', between CHR ''0'' CHR ''2''],
      [(=) CHR ''0'', between CHR ''1'' CHR ''9''],
      [between CHR ''1'' CHR ''9'']]"

definition re_d :: "string \<Rightarrow> (string \<times> string) list" where
  "re_d = alternatives
     [[(=) CHR ''3'', between CHR ''0'' CHR ''1''],
      [between CHR ''1'' CHR ''2'', is_digit],
      [(=) CHR ''0'', between CHR ''1'' CHR ''9''],
      [between CHR ''1'' CHR ''9''],
      [(=) CHR '' '', between CHR ''1'' CHR ''9'']]"

definition re_H :: "string \<Rightarrow> (string \<times> string) list" where
  "re_H = alternatives
     [[(=) CHR ''2'', between CHR ''0'' CHR ''3''],
      [between CHR ''0'' CHR ''1'', is_digit],
      [is_digit]]"

definition re_M :: "string \<Rightarrow> (string \<times> string) list" where
  "re_M = alternatives [[between CHR ''0'' CHR ''5'', is_digit], [is_digit]]"

definition re_S :: "string \<Rightarrow> (string \<times> string) list" where
  "re_S = alternatives
     [[(=) CHR ''6'', between CHR ''0'' CHR ''1''],
      [between CHR ''0'' CHR ''5'', is_digit],
      [is_digit]]"

definition re_f :: "string \<Rightarrow> (string \<times> string) list" where
  "re_f = alternatives
     [[is_digit, is_digit, is_digit, is_digit, is_digit, is_digit],
      [is_digit, is_digit, is_digit, is_digit, is_digit],
      [is_digit, is_digit, is_digit, is_digit],
      [is_digit, is_digit, is_digit],
      [is_digit, is_digit],
      [is_digit]]"

record datetime =
  year :: nat
  month :: nat
  day :: nat
  hour :: nat
  minute :: nat
  second :: nat
  microsecond :: nat

definition is_leap :: "nat \<Rightarrow> bool" where
  "is_leap y = (y mod 4 = 0 \<and> (y mod 100 \<noteq> 0 \<or> y mod 400 = 0))"

definition days_in_month :: "nat \<Rightarrow> nat \<Rightarrow> nat" where
  "days_in_month y m =
     (if m = 2 then (if is_leap y then 29 else 28)
      else if m \<in> set [4, 6, 9, 11] then 30 else 31)"

text \<open>
  The first match of the whole expression; the text must be used up
  (\<^verbatim>\<open>unconverted data remains\<close> otherwise); the fraction is padded with zeros on the right to six
  digits; the date and the time must exist (year 1 to 9999, the day within the month, the
  second at most 59). Every failure is a ValueError.
\<close>

definition strptime :: "string \<Rightarrow> error + datetime" where
  "strptime s =
     (case concat (map (\<lambda>(tY, s1). concat (map (\<lambda>(tm, s2). concat (map (\<lambda>(td, s3).
             concat (map (\<lambda>(tH, s4). concat (map (\<lambda>(tM, s5). concat (map (\<lambda>(tS, s6).
               map (\<lambda>(tf, s7). (tY, tm, td, tH, tM, tS, tf, s7)) (re_f s6))
             (re_S s5))) (re_M s4))) (re_H s3))) (re_d s2))) (re_m s1))) (re_Y s)) of
        [] \<Rightarrow> Inl ValueError
      | (tY, tm, td, tH, tM, tS, tf, rest) # _ \<Rightarrow>
          (let dt = \<lparr>year = int_of_digits tY, month = int_of_digits tm,
                     day = int_of_digits (filter is_digit td), hour = int_of_digits tH,
                     minute = int_of_digits tM, second = int_of_digits tS,
                     microsecond = int_of_digits (tf @ replicate (6 - length tf) CHR ''0'')\<rparr>
           in if rest \<noteq> [] then Inl ValueError
              else if year dt < 1 \<or> day dt < 1 \<or> days_in_month (year dt) (month dt) < day dt
                      \<or> 59 < second dt
              then Inl ValueError
              else Inr dt))"

text \<open>\<^verbatim>\<open>isoformat()\<close> of a datetime whose time zone is UTC.\<close>

definition pad :: "nat \<Rightarrow> nat \<Rightarrow> string" where
  "pad w n = replicate (w - length (digits n)) CHR ''0'' @ digits n"

definition isoformat :: "datetime \<Rightarrow> string" where
  "isoformat dt =
     pad 4 (year dt) @ ''-'' @ pad 2 (month dt) @ ''-'' @ pad 2 (day dt) @ ''T''
     @ pad 2 (hour dt) @ '':'' @ pad 2 (minute dt) @ '':'' @ pad 2 (second dt)
     @ (if microsecond dt \<noteq> 0 then ''.'' @ pad 6 (microsecond dt) else [])
     @ ''+00:00''"

text \<open>\<^verbatim>\<open>Path(name).stem\<close>: the name without its last suffix, when it has one.\<close>

definition path_stem :: "string \<Rightarrow> string" where
  "path_stem name =
     (let ext = takeWhile (\<lambda>c. c \<noteq> CHR ''.'') (rev name);
          i = length name - length ext - 1
      in if CHR ''.'' \<in> set name \<and> 0 < i \<and> ext \<noteq> [] then take i name else name)"

text \<open>
  \<^verbatim>\<open>parse_filename_metadata\<close>, on the name of the file. The page group holds ASCII digits
  or is missing. \<^verbatim>\<open>query_ts\<close> stays \<^verbatim>\<open>None\<close> when \<^verbatim>\<open>strptime\<close> raises, and the returned dict
  calls \<^verbatim>\<open>query_ts.isoformat()\<close> on it all the same.
\<close>

definition parse_filename_metadata :: "string \<Rightarrow> error + (string \<times> pyval) list" where
  "parse_filename_metadata filename =
     (let m = (case match_filename strict_tail filename of
                 Some g \<Rightarrow> Some g
               | None \<Rightarrow> match_filename relaxed_tail filename)
      in case m of
           Some (sid, q, page_str) \<Rightarrow>
             (let pg = (if page_str \<noteq> [] \<and> list_all is_digit page_str
                        then Some (int (int_of_digits page_str)) else None);
                  query_ts = (case strptime sid of Inr dt \<Rightarrow> Some dt | Inl e \<Rightarrow> None)
              in case query_ts of
                   None \<Rightarrow> Inl AttributeError
                 | Some dt \<Rightarrow>
                     Inr [(''search_id'',
                             PStr (case pg of
                                     Some p \<Rightarrow> sid @ ''-'' @ q @ ''-page'' @ str_int p
                                   | None \<Rightarrow> sid @ ''-'' @ q @ ''-page'')),
                          (''query_timestamp'', PStr (isoformat dt)),
                          (''query'', PStr q),
                          (''page'', case pg of Some p \<Rightarrow> PInt p | None \<Rightarrow> PNone)])
         | None \<Rightarrow>
             Inr [(''search_id'', PStr (path_stem filename)), (''query_timestamp'', PNone),
                  (''query'', PNone), (''page'', PNone)])"

section \<open>The record normalizer (processing.py)\<close>

definition and_then :: "error + 'a \<Rightarrow> ('a \<Rightarrow> error + 'b) \<Rightarrow> error + 'b" where
  "and_then m f = (case m of Inl e \<Rightarrow> Inl e | Inr x \<Rightarrow> f x)"

text \<open>
  \<^verbatim>\<open>re.sub(r"<.*?>", "", text)\<close>: from the left, every \<^verbatim>\<open><\<close> with a \<^verbatim>\<open>>\<close> after it and no line
  feed between them is removed up to the first such \<^verbatim>\<open>>\<close>.
\<close>

fun find_close :: "string \<Rightarrow> string option" where
  "find_close [] = None"
| "find_close (c # cs) =
     (if c = CHR ''>'' then Some cs else if c = CHR 0x0A then None else find_close cs)"

lemma find_close_shorter: "find_close cs = Some r \<Longrightarrow> length r < Suc (length cs)"
  by (induction cs) (auto split: if_splits)

function remove_tags :: "string \<Rightarrow> string" where
  "remove_tags [] = []"
| "remove_tags (c # cs) =
     (if c = CHR ''<''
      then (case find_close cs of Some r \<Rightarrow> remove_tags r | None \<Rightarrow> c # remove_tags cs)
      else c # remove_tags cs)"
  by pat_completeness auto
termination
  by (relation "measure length") (auto dest: find_close_shorter)

definition strip_html :: "pyval \<Rightarrow> pyval" where
  "strip_html text = (case text of PStr s \<Rightarrow> PStr (remove_tags s) | _ \<Rightarrow> text)"

text \<open>\<^verbatim>\<open>s.rsplit(".", 1)[-1]\<close> when \<open>s\<close> is a string with a dot: the text after the last dot.\<close>

definition after_last_dot :: "pyval \<Rightarrow> pyval" where
  "after_last_dot v =
     (case v of
        PStr s \<Rightarrow> if CHR ''.'' \<in> set s then PStr (rev (takeWhile (\<lambda>c. c \<noteq> CHR ''.'') (rev s))) else v
      | _ \<Rightarrow> v)"

text \<open>\<^verbatim>\<open>s.split(sep)\<close> for a separator of one character.\<close>

fun split_on :: "char \<Rightarrow> string \<Rightarrow> string list" where
  "split_on sep [] = [[]]"
| "split_on sep (c # cs) =
     (case split_on sep cs of
        p # ps \<Rightarrow> if c = sep then [] # p # ps else (c # p) # ps
      | [] \<Rightarrow> [[c]])"

definition between_underscores :: "pyval \<Rightarrow> pyval" where
  "between_underscores v =
     (case v of
        PStr s \<Rightarrow> (let parts = split_on CHR ''_'' s in if length parts > 2 then PStr (parts ! 1) else v)
      | _ \<Rightarrow> v)"

text \<open>
  \<^verbatim>\<open>safe_float\<close>: the built-in \<^verbatim>\<open>float\<close> is the parameter \<open>py_float\<close>; its TypeError and
  ValueError give \<^verbatim>\<open>None\<close>, any other exception (the OverflowError of a huge integer)
  goes on.
\<close>

definition safe_float :: "(pyval \<Rightarrow> error + pyval) \<Rightarrow> pyval \<Rightarrow> error + pyval" where
  "safe_float py_float val =
     (case py_float val of
        Inr x \<Rightarrow> Inr x
      | Inl TypeError \<Rightarrow> Inr PNone
      | Inl ValueError \<Rightarrow> Inr PNone
      | Inl e \<Rightarrow> Inl e)"

text \<open>\<open>v == n\<close> for an integer \<open>n\<close>, as a dict lookup and the \<^verbatim>\<open>in\<close> of a tuple compare.\<close>

fun eq_int :: "pyval \<Rightarrow> int \<Rightarrow> bool" where
  "eq_int (PInt i) n = (i = n)"
| "eq_int (PBool b) n = ((if b then 1 else 0) = n)"
| "eq_int (PFloat x) n = (x = of_int n)"
| "eq_int _ n = False"

text \<open>\<^verbatim>\<open>{1: "fixed", 2: "hourly"}.get(value)\<close>: a list or a dict is not hashable.\<close>

definition get_job_type :: "pyval \<Rightarrow> error + pyval" where
  "get_job_type v =
     (case v of
        PList xs \<Rightarrow> Inl TypeError
      | PDict d \<Rightarrow> Inl TypeError
      | _ \<Rightarrow> Inr (if eq_int v 1 then PStr ''fixed'' else if eq_int v 2 then PStr ''hourly'' else PNone))"

definition is_dict :: "pyval \<Rightarrow> bool" where
  "is_dict v = (case v of PDict d \<Rightarrow> True | _ \<Rightarrow> False)"

definition extract_skill_names :: "pyval \<Rightarrow> pyval list" where
  "extract_skill_names attrs =
     (case attrs of
        PList xs \<Rightarrow>
          concat (map (\<lambda>a. case a of
                              PDict d \<Rightarrow> if truthy (dget d ''prettyName'') then [dget d ''prettyName''] else []
                            | _ \<Rightarrow> []) xs)
      | _ \<Rightarrow> [])"

text \<open>
  \<^verbatim>\<open>flatten_record\<close>. \<open>crepr\<close> is the text of \<^verbatim>\<open>str\<close> for floats, lists and dicts,
  \<open>py_float\<close> the built-in \<^verbatim>\<open>float\<close> and \<open>loads\<close> is \<^verbatim>\<open>json.loads\<close> (\<open>None\<close> when it raises).
  The steps follow the source in order, each raising where the source does.
\<close>

definition flatten_record ::
  "(pyval \<Rightarrow> string) \<Rightarrow> (pyval \<Rightarrow> error + pyval) \<Rightarrow> (string \<Rightarrow> pyval option)
   \<Rightarrow> (string \<times> pyval) list \<Rightarrow> error + (string \<times> pyval) list" where
  "flatten_record crepr py_float loads record =
     (let job_id = py_or (dget record ''uid'') (py_or (dget record ''jobId'') (dget record ''id''));
          url = (if truthy (dget record ''ciphertext'')
                 then PStr (''https://www.upwork.com/jobs/'' @ pystr crepr (dget record ''ciphertext''))
                 else py_or (dget record ''url'') (dget record ''jobLink''))
      in and_then (attr_get (py_or (dget record ''amount'') (PDict [])) ''currencyCode'') (\<lambda>c1.
         and_then (if truthy c1 then Inr c1
                   else and_then (attr_get (py_or (dget record ''hourlyBudget'') (PDict [])) ''currencyCode'')
                          (\<lambda>c2. Inr (py_or c2 (PStr ''USD'')))) (\<lambda>currency.
         let skills0 = extract_skill_names (dget record ''attrs'');
             skills = (if skills0 = []
                       then (case dget record ''skills'' of
                               PList xs \<Rightarrow>
                                 concat (map (\<lambda>s. case s of
                                       PDict d \<Rightarrow> [py_or (dget d ''prettyName'') (dget d ''name'')]
                                     | _ \<Rightarrow> []) xs)
                             | _ \<Rightarrow> skills0)
                       else skills0);
             engagement = (if \<not> truthy (dget record ''engagement'')
                           then (case dget record ''posting'' of
                                   PDict p \<Rightarrow> dget p ''engagement''
                                 | _ \<Rightarrow> dget record ''engagement'')
                           else dget record ''engagement'');
             client = py_or (dget record ''client'') (PDict []);
             client_country =
               (case client of
                  PDict cd \<Rightarrow>
                    (case py_or (dget cd ''location'') (PDict []) of
                       PDict loc \<Rightarrow> dget loc ''country''
                     | _ \<Rightarrow> dget cd ''country'')
                | _ \<Rightarrow> PNone)
         in and_then (attr_get client ''totalSpent'') (\<lambda>spent.
            and_then (safe_float py_float spent) (\<lambda>client_total_spent.
            and_then (attr_get client ''isPaymentVerified'') (\<lambda>verified0.
            and_then (if verified0 = PNone
                      then and_then (attr_get client ''paymentVerificationStatus'')
                             (\<lambda>st. Inr (PBool (st = PStr ''VERIFIED'' \<or> eq_int st 1)))
                      else Inr verified0) (\<lambda>client_payment_verified.
            and_then (attr_get client ''totalReviews'') (\<lambda>client_total_reviews.
            and_then (attr_get client ''totalFeedback'') (\<lambda>feedback.
            and_then (if truthy feedback then Inr feedback else attr_get client ''rating'') (\<lambda>client_avg_feedback.
            let amount = py_or (dget record ''amount'') (PDict []);
                hourly_budget = py_or (dget record ''hourlyBudget'') (PDict [])
            in and_then (attr_get (py_or (dget record ''weeklyBudget'') (PDict [])) ''amount'') (\<lambda>weekly_budget.
               let is_sts = (if dget record ''isSTSVectorSearchResult'' = PNone
                             then dget record ''isStsVectorSearchResult''
                             else dget record ''isSTSVectorSearchResult'');
                   relevance = (case dget record ''relevanceEncoded'' of
                                  PStr s \<Rightarrow> (case loads s of Some v \<Rightarrow> v | None \<Rightarrow> PStr s)
                                | v \<Rightarrow> v)
               in and_then (get_job_type (dget record ''type'')) (\<lambda>job_type.
                  and_then (attr_get amount ''amount'') (\<lambda>fixed_budget.
                  and_then (attr_get hourly_budget ''min'') (\<lambda>hourly_budget_min.
                  and_then (attr_get hourly_budget ''max'') (\<lambda>hourly_budget_max.
                  Inr [(''job_id'', if job_id \<noteq> PNone then PStr (pystr crepr job_id) else PNone),
                       (''url'', url),
                       (''title'', strip_html (dget record ''title'')),
                       (''description'', strip_html (dget record ''description'')),
                       (''skills'', PList skills),
                       (''created_on'', dget record ''createdOn''),
                       (''published_on'', dget record ''publishedOn''),
                       (''renewed_on'', dget record ''renewedOn''),
                       (''duration_label'', dget record ''durationLabel''),
                       (''connect_price'', dget record ''connectPrice''),
                       (''job_type'', job_type),
                       (''engagement'', after_last_dot engagement),
                       (''proposals_tier'', after_last_dot (dget record ''proposalsTier'')),
                       (''tier_text'', between_underscores (dget record ''tierText'')),
                       (''fixed_budget'', fixed_budget),
                       (''weekly_budget'', weekly_budget),
                       (''hourly_budget_min'', hourly_budget_min),
                       (''hourly_budget_max'', hourly_budget_max),
                       (''currency'', currency),
                       (''client_country'', client_country),
                       (''client_total_spent'', client_total_spent),
                       (''client_payment_verified'', client_payment_verified),
                       (''client_total_reviews'', client_total_reviews),
                       (''client_avg_feedback'', client_avg_feedback),
                       (''is_sts_vector_search_result'', is_sts),
                       (''relevance_encoded'', relevance),
                       (''is_applied'', PBool (truthy (dget record ''isApplied'')))])))))))))))))))"

text \<open>\<^verbatim>\<open>for r in raw_jobs\<close>: what iterating a value gives; a value that is not iterable raises.\<close>

fun iter_items :: "pyval \<Rightarrow> error + pyval list" where
  "iter_items (PList xs) = Inr xs"
| "iter_items (PStr s) = Inr (map (\<lambda>c. PStr [c]) s)"
| "iter_items (PDict d) = Inr (map (\<lambda>kv. PStr (fst kv)) d)"
| "iter_items _ = Inl TypeError"

text \<open>A list comprehension over a function that may raise: the first exception ends it.\<close>

fun collect :: "('a \<Rightarrow> error + 'b) \<Rightarrow> 'a list \<Rightarrow> error + 'b list" where
  "collect f [] = Inr []"
| "collect f (x # xs) = and_then (f x) (\<lambda>y. and_then (collect f xs) (\<lambda>ys. Inr (y # ys)))"

text \<open>
  The de-duplication loop of \<^verbatim>\<open>process_json_file\<close>, with its set \<^verbatim>\<open>seen\<close>. The job ids are
  the strings \<^verbatim>\<open>flatten_record\<close> made, which \<^verbatim>\<open>in\<close> compares as texts.
\<close>

fun unique_jobs_loop :: "pyval list \<Rightarrow> (string \<times> pyval) list list \<Rightarrow> (string \<times> pyval) list list" where
  "unique_jobs_loop seen [] = []"
| "unique_jobs_loop seen (j # js) =
     (let jid = dget j ''job_id''
      in if \<not> truthy jid \<or> jid \<in> set seen then unique_jobs_loop seen js
         else j # unique_jobs_loop (jid # seen) js)"

text \<open>
  \<^verbatim>\<open>process_json_file\<close>, from the name of the file, the text of its path and the value
  \<^verbatim>\<open>json.load\<close> read from it.
\<close>

definition process_json_file ::
  "(pyval \<Rightarrow> string) \<Rightarrow> (pyval \<Rightarrow> error + pyval) \<Rightarrow> (string \<Rightarrow> pyval option) \<Rightarrow> string \<Rightarrow> string \<Rightarrow> pyval
   \<Rightarrow> error + ((string \<times> pyval) list list \<times> (string \<times> pyval) list list \<times> (string \<times> pyval) list)" where
  "process_json_file crepr py_float loads filename path data =
     and_then (parse_filename_metadata filename) (\<lambda>meta.
     and_then (case data of
                 PList xs \<Rightarrow> Inr data
               | PDict d \<Rightarrow> Inr (case map_of d ''jobs'' of Some v \<Rightarrow> v | None \<Rightarrow> PList [])
               | _ \<Rightarrow> Inl AttributeError) (\<lambda>raw_jobs.
     and_then (iter_items raw_jobs) (\<lambda>items.
     and_then (collect (flatten_record crepr py_float loads)
                 (concat (map (\<lambda>r. case r of PDict d \<Rightarrow> [d] | _ \<Rightarrow> []) items))) (\<lambda>flattened.
     let unique_jobs = unique_jobs_loop [] flattened;
         search_results_rows =
           map (\<lambda>j. [(''search_id'', dget meta ''search_id''),
                     (''job_id'', dget j ''job_id''),
                     (''proposals_tier'', dget j ''proposals_tier''),
                     (''is_applied'', dget j ''is_applied'')])
             (filter (\<lambda>j. truthy (dget j ''job_id'')) unique_jobs);
         scrape_req =
           [(''search_id'', dget meta ''search_id''),
            (''query'', dget meta ''query''),
            (''page'', dget meta ''page''),
            (''filepath'', PStr path),
            (''query_timestamp'', dget meta ''query_timestamp'')]
     in Inr (unique_jobs, search_results_rows, scrape_req)))))"

section \<open>Cross-batch de-duplication (cli.py)\<close>

text \<open>\<^verbatim>\<open>_dedupe_jobs\<close>: the dict \<^verbatim>\<open>by_id\<close> in insertion order; storing under a key that is there
  replaces the value in place.\<close>

fun dedupe_jobs_loop :: "(pyval \<Rightarrow> string) \<Rightarrow> (string \<times> (string \<times> pyval) list) list \<Rightarrow> (string \<times> pyval) list list
    \<Rightarrow> (string \<times> (string \<times> pyval) list) list" where
  "dedupe_jobs_loop crepr by_id [] = by_id"
| "dedupe_jobs_loop crepr by_id (r # rs) =
     (let jid = dget r ''job_id''
      in if \<not> truthy jid then dedupe_jobs_loop crepr by_id rs
         else dedupe_jobs_loop crepr (AList.update (pystr crepr jid) r by_id) rs)"

definition dedupe_jobs :: "(pyval \<Rightarrow> string) \<Rightarrow> (string \<times> pyval) list list \<Rightarrow> (string \<times> pyval) list list" where
  "dedupe_jobs crepr rows = map snd (dedupe_jobs_loop crepr [] rows)"

text \<open>\<^verbatim>\<open>_dedupe_search_results\<close>: the set \<^verbatim>\<open>seen\<close> of pairs of texts.\<close>

fun dedupe_search_results_loop :: "(pyval \<Rightarrow> string) \<Rightarrow> (string \<times> string) list \<Rightarrow> (string \<times> pyval) list list
    \<Rightarrow> (string \<times> pyval) list list" where
  "dedupe_search_results_loop crepr seen [] = []"
| "dedupe_search_results_loop crepr seen (r # rs) =
     (let search_id = dget r ''search_id''; job_id = dget r ''job_id''
      in if \<not> truthy search_id \<or> \<not> truthy job_id then dedupe_search_results_loop crepr seen rs
         else let key = (pystr crepr search_id, pystr crepr job_id)
              in if key \<in> set seen then dedupe_search_results_loop crepr seen rs
                 else r # dedupe_search_results_loop crepr (key # seen) rs)"

definition dedupe_search_results :: "(pyval \<Rightarrow> string) \<Rightarrow> (string \<times> pyval) list list \<Rightarrow> (string \<times> pyval) list list" where
  "dedupe_search_results crepr rows = dedupe_search_results_loop crepr [] rows"

text \<open>For the examples: a \<open>py_float\<close> and a \<open>loads\<close> that always fail, and two payloads
  with the same id.\<close>

definition no_float :: "pyval \<Rightarrow> error + pyval" where
  "no_float v = Inl TypeError"

definition no_loads :: "string \<Rightarrow> pyval option" where
  "no_loads s = None"

definition payload_first :: "(string \<times> pyval) list" where
  "payload_first = [(''uid'', PStr ''123''), (''description'', PStr ''first <b>text</b>'')]"

definition payload_second :: "(string \<times> pyval) list" where
  "payload_second = [(''uid'', PStr ''123''), (''description'', PStr ''second text'')]"

text \<open>For the proofs about the three loops: a loop that keeps the first row of every key
  (\<open>key\<close> gives no key for a row the loop skips), and the key each loop compares.\<close>

fun first_wins :: "('a \<Rightarrow> 'k option) \<Rightarrow> 'k list \<Rightarrow> 'a list \<Rightarrow> 'a list" where
  "first_wins key seen [] = []"
| "first_wins key seen (r # rs) =
     (case key r of
        None \<Rightarrow> first_wins key seen rs
      | Some k \<Rightarrow> if k \<in> set seen then first_wins key seen rs else r # first_wins key (k # seen) rs)"

definition job_key :: "(string \<times> pyval) list \<Rightarrow> pyval option" where
  "job_key j = (if truthy (dget j ''job_id'') then Some (dget j ''job_id'') else None)"

definition job_text_key :: "(pyval \<Rightarrow> string) \<Rightarrow> (string \<times> pyval) list \<Rightarrow> string option" where
  "job_text_key crepr r = (if truthy (dget r ''job_id'') then Some (pystr crepr (dget r ''job_id'')) else None)"

definition link_key :: "(pyval \<Rightarrow> string) \<Rightarrow> (string \<times> pyval) list \<Rightarrow> (string \<times> string) option" where
  "link_key crepr r =
     (if truthy (dget r ''search_id'') \<and> truthy (dget r ''job_id'')
      then Some (pystr crepr (dget r ''search_id''), pystr crepr (dget r ''job_id'')) else None)"

text \<open>Two rows with the same job id, and two search result rows with the same pair.\<close>

definition job_first :: "(string \<times> pyval) list" where
  "job_first = [(''job_id'', PStr ''123''), (''description'', PStr ''first text'')]"

definition job_second :: "(string \<times> pyval) list" where
  "job_second = [(''job_id'', PStr ''123''), (''description'', PStr ''second text'')]"

definition link_first :: "(string \<times> pyval) list" where
  "link_first = [(''search_id'', PStr ''s''), (''job_id'', PStr ''123''), (''proposals_tier'', PInt 1)]"

definition link_second :: "(string \<times> pyval) list" where
  "link_second = [(''search_id'', PStr ''s''), (''job_id'', PStr ''123''), (''proposals_tier'', PInt 2)]"

section \<open>Properties\<close>

subsection \<open>Coercion of edited cells\<close>

text \<open>\<^verbatim>\<open>strip\<close> ignores white space around a text, and it cuts a text into white space, a
  middle that neither starts nor ends with white space, and white space.\<close>

lemma strip_padding:
  assumes "\<forall>c\<in>set pre. is_space c" "\<forall>c\<in>set post. is_space c"
  shows "strip (pre @ s @ post) = strip s"
proof -
  have a: "dropWhile is_space (pre @ s @ post) = dropWhile is_space (s @ post)"
    using assms(1) by (simp add: dropWhile_append2)
  show ?thesis
  proof (cases "\<forall>c\<in>set s. is_space c")
    case True
    with assms(2) have "\<forall>c\<in>set (s @ post). is_space c" by auto
    then have "dropWhile is_space (s @ post) = []" by (simp only: dropWhile_eq_Nil_conv)
    moreover from True have "dropWhile is_space s = []" by (simp only: dropWhile_eq_Nil_conv)
    ultimately have x: "dropWhile is_space (s @ post) = []" "dropWhile is_space s = []" by blast+
    show ?thesis unfolding strip_def a x by (rule refl)
  next
    case False
    then have b: "dropWhile is_space (s @ post) = dropWhile is_space s @ post"
      by (auto simp add: dropWhile_append1)
    have "dropWhile is_space (rev post @ rev (dropWhile is_space s))
            = dropWhile is_space (rev (dropWhile is_space s))"
      using assms(2) by (intro dropWhile_append2) simp
    then show ?thesis unfolding strip_def a b rev_append by (rule arg_cong)
  qed
qed

lemma strip_decomp:
  "\<exists>pre post. s = pre @ strip s @ post \<and> (\<forall>c\<in>set pre. is_space c) \<and> (\<forall>c\<in>set post. is_space c)
     \<and> (strip s \<noteq> [] \<longrightarrow> \<not> is_space (hd (strip s)) \<and> \<not> is_space (last (strip s)))"
proof -
  let ?d = "dropWhile is_space s"
  let ?e = "dropWhile is_space (rev ?d)"
  have s: "s = takeWhile is_space s @ ?d" by simp
  have "rev ?d = takeWhile is_space (rev ?d) @ ?e" by simp
  then have "rev (rev ?d) = rev (takeWhile is_space (rev ?d) @ ?e)" by (rule arg_cong)
  then have d: "?d = strip s @ rev (takeWhile is_space (rev ?d))"
    by (simp only: rev_rev_ident rev_append strip_def)
  have p1: "\<forall>c\<in>set (takeWhile is_space s). is_space c" by (auto dest: set_takeWhileD)
  have p2: "\<forall>c\<in>set (rev (takeWhile is_space (rev ?d))). is_space c" by (auto dest: set_takeWhileD)
  have e: "strip s \<noteq> [] \<longrightarrow> \<not> is_space (hd (strip s)) \<and> \<not> is_space (last (strip s))"
  proof
    assume n: "strip s \<noteq> []"
    then have ne: "?e \<noteq> []" by (simp add: strip_def)
    then have "\<not> is_space (hd ?e)" by (rule hd_dropWhile)
    moreover have "last (strip s) = hd ?e" using ne by (simp add: strip_def last_rev)
    moreover have "?d \<noteq> []" using d n by (metis append_is_Nil_conv)
    then have "\<not> is_space (hd ?d)" by (rule hd_dropWhile)
    moreover have "hd ?d = hd (strip s)" using d n by (metis hd_append2)
    ultimately show "\<not> is_space (hd (strip s)) \<and> \<not> is_space (last (strip s))" by simp
  qed
  from s d have "s = takeWhile is_space s @ strip s @ rev (takeWhile is_space (rev ?d))" by simp
  with p1 p2 e show ?thesis by blast
qed

text \<open>
  Claim C6. \<^verbatim>\<open>_coerce_bool\<close> is total and returns: a native boolean unchanged; for a
  number (int or float) whether it is non-zero; for a string, after trimming and
  lower-casing, true for true/yes/y/1 and false for false/no/n/0; the absent result
  \<open>None\<close> for any other string and for every other value (null, list, dict). So
  "Yes" gives true, "0" gives false and "maybe" gives absent. Trimming: white space
  around a string changes neither its trimmed text nor the result, and the trimmed text is
  the string without the white space of its two ends. Lower-casing: the letters A to Z
  become a to z, and small letters, digits and the blank stay. The eight words are
  recognised in any case and with blanks, tabs and line ends around them; a word with
  white space or another sign inside is not.
\<close>

theorem coerce_bool_table:
  "coerce_bool (PBool b) = Some b
   \<and> coerce_bool (PInt i) = Some (i \<noteq> 0)
   \<and> coerce_bool (PFloat x) = Some (x \<noteq> 0)
   \<and> coerce_bool (PStr s) =
       (if lower (strip s) \<in> {''true'', ''yes'', ''y'', ''1''} then Some True
        else if lower (strip s) \<in> {''false'', ''no'', ''n'', ''0''} then Some False
        else None)
   \<and> coerce_bool PNone = None
   \<and> coerce_bool (PList xs) = None
   \<and> coerce_bool (PDict d) = None
   \<and> coerce_bool (PStr ''Yes'') = Some True
   \<and> coerce_bool (PStr ''0'') = Some False
   \<and> coerce_bool (PStr ''maybe'') = None
   \<and> ((\<forall>c\<in>set pre. is_space c) \<and> (\<forall>c\<in>set post. is_space c) \<longrightarrow>
         strip (pre @ s @ post) = strip s
         \<and> coerce_bool (PStr (pre @ s @ post)) = coerce_bool (PStr s))
   \<and> (\<exists>pre post. s = pre @ strip s @ post \<and> (\<forall>c\<in>set pre. is_space c) \<and> (\<forall>c\<in>set post. is_space c)
         \<and> (strip s \<noteq> [] \<longrightarrow> \<not> is_space (hd (strip s)) \<and> \<not> is_space (last (strip s))))
   \<and> filter is_space [CHR 0x09, CHR 0x0A, CHR 0x0B, CHR 0x0C, CHR 0x0D, CHR '' '', CHR ''a'', CHR ''0'', CHR ''_'']
        = [CHR 0x09, CHR 0x0A, CHR 0x0B, CHR 0x0C, CHR 0x0D, CHR '' '']
   \<and> lower ''ABCDEFGHIJKLMNOPQRSTUVWXYZ'' = ''abcdefghijklmnopqrstuvwxyz''
   \<and> lower ''abcdefghijklmnopqrstuvwxyz 0123456789'' = ''abcdefghijklmnopqrstuvwxyz 0123456789''
   \<and> map (\<lambda>s. coerce_bool (PStr s))
        [''  YES '', CHR 0x09 # ''True'' @ [CHR 0x0A], ''TRUE'', '' Y'', ''1 '', ''yEs'']
        = [Some True, Some True, Some True, Some True, Some True, Some True]
   \<and> map (\<lambda>s. coerce_bool (PStr s))
        ['' False'', ''FALSE  '', ''No'', CHR 0x0D # ''N'' @ [CHR 0x0A], '' 0 '', ''nO'']
        = [Some False, Some False, Some False, Some False, Some False, Some False]
   \<and> map (\<lambda>s. coerce_bool (PStr s)) [[], ''   '', ''y e s'', ''yes.'', ''2'', ''on'', ''t'', ''_yes'']
        = [None, None, None, None, None, None, None, None]"
proof -
  have pad: "(\<forall>c\<in>set pre. is_space c) \<and> (\<forall>c\<in>set post. is_space c) \<longrightarrow>
         strip (pre @ s @ post) = strip s
         \<and> coerce_bool (PStr (pre @ s @ post)) = coerce_bool (PStr s)"
    by (simp add: strip_padding)
  have ex: "filter is_space [CHR 0x09, CHR 0x0A, CHR 0x0B, CHR 0x0C, CHR 0x0D, CHR '' '', CHR ''a'', CHR ''0'', CHR ''_'']
        = [CHR 0x09, CHR 0x0A, CHR 0x0B, CHR 0x0C, CHR 0x0D, CHR '' '']"
    by (simp add: is_space_def)
  have lo: "lower ''ABCDEFGHIJKLMNOPQRSTUVWXYZ'' = ''abcdefghijklmnopqrstuvwxyz''"
      "lower ''abcdefghijklmnopqrstuvwxyz 0123456789'' = ''abcdefghijklmnopqrstuvwxyz 0123456789''"
    by (simp_all add: lower_def lower_char_def)
  have t: "map (\<lambda>s. coerce_bool (PStr s))
        [''  YES '', CHR 0x09 # ''True'' @ [CHR 0x0A], ''TRUE'', '' Y'', ''1 '', ''yEs'']
        = [Some True, Some True, Some True, Some True, Some True, Some True]"
    by (simp add: Let_def strip_def is_space_def lower_def lower_char_def)
  have f: "map (\<lambda>s. coerce_bool (PStr s))
        ['' False'', ''FALSE  '', ''No'', CHR 0x0D # ''N'' @ [CHR 0x0A], '' 0 '', ''nO'']
        = [Some False, Some False, Some False, Some False, Some False, Some False]"
    by (simp add: Let_def strip_def is_space_def lower_def lower_char_def)
  have n: "map (\<lambda>s. coerce_bool (PStr s)) [[], ''   '', ''y e s'', ''yes.'', ''2'', ''on'', ''t'', ''_yes'']
        = [None, None, None, None, None, None, None, None]"
    by (simp add: Let_def strip_def is_space_def lower_def lower_char_def)
  have b: "coerce_bool (PStr ''Yes'') = Some True \<and> coerce_bool (PStr ''0'') = Some False
      \<and> coerce_bool (PStr ''maybe'') = None"
    by (simp add: Let_def strip_def is_space_def lower_def lower_char_def)
  have d: "coerce_bool (PStr s) =
       (if lower (strip s) \<in> {''true'', ''yes'', ''y'', ''1''} then Some True
        else if lower (strip s) \<in> {''false'', ''no'', ''n'', ''0''} then Some False
        else None)"
    by (simp add: Let_def)
  show ?thesis
    using pad ex lo t f n b d strip_decomp [of s] by (intro conjI) simp_all
qed

theorem coerce_bool_table_witness:
  "is_space (CHR 0x09) \<and> is_space CHR '' '' \<and> is_space (CHR 0x0A)
   \<and> strip ([CHR 0x09, CHR '' ''] @ ''Yes'' @ [CHR 0x0A]) = ''Yes''
   \<and> coerce_bool (PStr ([CHR 0x09, CHR '' ''] @ ''Yes'' @ [CHR 0x0A])) = Some True"
  using coerce_bool_table [where pre = "[CHR 0x09, CHR '' '']" and post = "[CHR 0x0A]" and s = "''Yes''"]
  by (simp add: is_space_def strip_def Let_def lower_def lower_char_def)

subsection \<open>The row index\<close>

lemma index_loop_snoc:
  "index_loop idx i (vals @ [x]) =
     (if x \<noteq> [] then (index_loop idx i vals)(x \<mapsto> i + length vals) else index_loop idx i vals)"
  by (induction vals arbitrary: idx i) auto

lemma index_loop_empty_key: "index_loop idx i vals [] = idx []"
  by (induction vals arbitrary: idx i) auto

lemma is_last_at_snoc_same: "is_last_at (xs @ [v]) v q \<longleftrightarrow> q = length xs"
proof
  assume a: "is_last_at (xs @ [v]) v q"
  show "q = length xs"
  proof (rule ccontr)
    assume "q \<noteq> length xs"
    with a have "q < length xs" by (simp add: is_last_at_def)
    with a have "(xs @ [v]) ! length xs \<noteq> v" unfolding is_last_at_def by auto
    then show False by simp
  qed
next
  assume "q = length xs"
  then show "is_last_at (xs @ [v]) v q" by (auto simp: is_last_at_def)
qed

lemma is_last_at_snoc_other: "x \<noteq> v \<Longrightarrow> is_last_at (xs @ [x]) v q \<longleftrightarrow> is_last_at xs v q"
proof
  assume n: "x \<noteq> v" and a: "is_last_at (xs @ [x]) v q"
  from a n have "q < length xs"
    by (cases "q = length xs") (auto simp: is_last_at_def)
  with a show "is_last_at xs v q"
    unfolding is_last_at_def
    by (auto simp: nth_append split: if_splits)
next
  assume n: "x \<noteq> v" and a: "is_last_at xs v q"
  then show "is_last_at (xs @ [x]) v q"
    unfolding is_last_at_def by (auto simp: nth_append less_Suc_eq)
qed

lemma index_loop_last:
  "v \<noteq> [] \<Longrightarrow>
   (index_loop Map.empty i vals v = Some p) \<longleftrightarrow> (i \<le> p \<and> is_last_at vals v (p - i))"
proof (induction vals rule: rev_induct)
  case Nil
  then show ?case by (simp add: is_last_at_def)
next
  case (snoc x xs)
  show ?case
  proof (cases "x = v")
    case True
    with snoc.prems show ?thesis
      by (auto simp add: index_loop_snoc is_last_at_snoc_same)
  next
    case False
    with snoc show ?thesis
      by (simp add: index_loop_snoc is_last_at_snoc_other)
  qed
qed

lemma trim_trailing_decomp: "\<exists>n. xs = trim_trailing xs @ replicate n []"
proof -
  have "rev xs = takeWhile (\<lambda>c. c = []) (rev xs) @ dropWhile (\<lambda>c. c = []) (rev xs)"
    by simp
  then have "xs = trim_trailing xs @ rev (takeWhile (\<lambda>c. c = []) (rev xs))"
    unfolding trim_trailing_def by (metis rev_append rev_rev_ident)
  moreover have "rev (takeWhile (\<lambda>c. c = []) (rev xs)) = replicate (length (takeWhile (\<lambda>c. c = []) (rev xs))) []"
    by (metis (mono_tags, lifting) length_rev replicate_eqI set_rev set_takeWhileD)
  ultimately show ?thesis by metis
qed

lemma is_last_at_pad: "v \<noteq> [] \<Longrightarrow> is_last_at (xs @ replicate n []) v q \<longleftrightarrow> is_last_at xs v q"
proof (induction n)
  case 0
  then show ?case by simp
next
  case (Suc n)
  have "xs @ replicate (Suc n) [] = (xs @ replicate n []) @ [[]]"
    by (simp add: replicate_append_same)
  with Suc show ?case
    by (metis is_last_at_snoc_other)
qed

lemma is_last_at_tl: "is_last_at (tl xs) v q \<longleftrightarrow> is_last_at xs v (Suc q)"
  apply (cases xs)
   apply (simp add: is_last_at_def)
  apply (auto simp: is_last_at_def)
  subgoal for a list j by (cases j) auto
  done

lemma index_of_column:
  assumes "v \<noteq> []"
  shows "(index_loop Map.empty 2 (tl (trim_trailing full)) v = Some i) \<longleftrightarrow>
         (2 \<le> i \<and> is_last_at full v (i - 1))"
proof -
  obtain n where n: "full = trim_trailing full @ replicate n []"
    using trim_trailing_decomp by blast
  have "(index_loop Map.empty 2 (tl (trim_trailing full)) v = Some i) \<longleftrightarrow>
        (2 \<le> i \<and> is_last_at (tl (trim_trailing full)) v (i - 2))"
    using assms by (rule index_loop_last)
  also have "\<dots> \<longleftrightarrow> (2 \<le> i \<and> is_last_at (trim_trailing full) v (Suc (i - 2)))"
    by (simp add: is_last_at_tl)
  also have "\<dots> \<longleftrightarrow> (2 \<le> i \<and> is_last_at (trim_trailing full) v (i - 1))"
  proof (cases "2 \<le> i")
    case True
    then have "Suc (i - 2) = i - 1" by arith
    then show ?thesis by simp
  next
    case False
    then show ?thesis by simp
  qed
  also have "\<dots> \<longleftrightarrow> (2 \<le> i \<and> is_last_at full v (i - 1))"
    using is_last_at_pad [OF assms, of "trim_trailing full" n "i - 1"] n by simp
  finally show ?thesis .
qed

lemma is_last_at_cells:
  "2 \<le> i \<Longrightarrow> is_last_at (map (\<lambda>row. cell row kc) ws) v (i - 1) \<longleftrightarrow>
     (i \<le> length ws \<and> cell (ws ! (i - 1)) kc = v
      \<and> (\<forall>j. i < j \<and> j \<le> length ws \<longrightarrow> cell (ws ! (j - 1)) kc \<noteq> v))"
proof -
  assume i: "2 \<le> i"
  have "(\<forall>j. i - 1 < j \<and> j < length ws \<longrightarrow> cell (ws ! j) kc \<noteq> v) \<longleftrightarrow>
        (\<forall>j. i < j \<and> j \<le> length ws \<longrightarrow> cell (ws ! (j - 1)) kc \<noteq> v)"
  proof (intro iffI allI impI)
    fix j assume a: "\<forall>j. i - 1 < j \<and> j < length ws \<longrightarrow> cell (ws ! j) kc \<noteq> v" and j: "i < j \<and> j \<le> length ws"
    from j i have "i - 1 < j - 1 \<and> j - 1 < length ws" by arith
    with a show "cell (ws ! (j - 1)) kc \<noteq> v" by blast
  next
    fix j assume a: "\<forall>j. i < j \<and> j \<le> length ws \<longrightarrow> cell (ws ! (j - 1)) kc \<noteq> v" and j: "i - 1 < j \<and> j < length ws"
    from j i have "i < Suc j \<and> Suc j \<le> length ws" by arith
    with a have "cell (ws ! (Suc j - 1)) kc \<noteq> v" by blast
    then show "cell (ws ! j) kc \<noteq> v" by simp
  qed
  moreover have "i - 1 < length ws \<longleftrightarrow> i \<le> length ws" using i by arith
  ultimately show ?thesis
    unfolding is_last_at_def by (auto simp del: One_nat_def)
qed

lemma read_index_by_key_iff:
  "(key \<notin> set (row_values ws 1) \<longrightarrow> read_index_by_key ws key = Map.empty)
   \<and> (key \<in> set (row_values ws 1) \<longrightarrow>
        read_index_by_key ws key [] = None
        \<and> (\<forall>v i. v \<noteq> [] \<longrightarrow>
              (read_index_by_key ws key v = Some i) =
              (2 \<le> i \<and> i \<le> length ws
               \<and> cell (ws ! (i - 1)) (index_of (row_values ws 1) key + 1) = v
               \<and> (\<forall>j. i < j \<and> j \<le> length ws \<longrightarrow>
                      cell (ws ! (j - 1)) (index_of (row_values ws 1) key + 1) \<noteq> v))))"
proof (intro conjI impI allI)
  assume "key \<notin> set (row_values ws 1)"
  then show "read_index_by_key ws key = Map.empty"
    by (simp add: read_index_by_key_def)
next
  assume "key \<in> set (row_values ws 1)"
  then show "read_index_by_key ws key [] = None"
    by (simp add: read_index_by_key_def index_loop_empty_key)
next
  fix v :: string and i :: nat
  assume k: "key \<in> set (row_values ws 1)" and v: "v \<noteq> []"
  let ?kc = "index_of (row_values ws 1) key + 1"
  have "(read_index_by_key ws key v = Some i) \<longleftrightarrow>
        (2 \<le> i \<and> is_last_at (map (\<lambda>row. cell row ?kc) ws) v (i - 1))"
    using k index_of_column [OF v, of "map (\<lambda>row. cell row ?kc) ws" i]
    by (simp add: read_index_by_key_def col_values_def)
  then show "(read_index_by_key ws key v = Some i) =
        (2 \<le> i \<and> i \<le> length ws \<and> cell (ws ! (i - 1)) ?kc = v
          \<and> (\<forall>j. i < j \<and> j \<le> length ws \<longrightarrow> cell (ws ! (j - 1)) ?kc \<noteq> v))"
    using is_last_at_cells [of i ?kc ws v] by blast
qed


text \<open>
  Claim C10. When the key column name is not in the header row, the index is empty. When
  it is, the index has no entry for the empty text, and it maps a non-empty text \<open>v\<close> to
  \<open>i\<close> exactly when \<open>i\<close> is the 1-based position of the last worksheet row whose key cell is
  \<open>v\<close>; that position is at least 2, the header being row 1.
\<close>

theorem read_index_by_key_last_row:
  "(key \<notin> set (row_values ws 1) \<longrightarrow> read_index_by_key ws key = Map.empty)
   \<and> (key \<in> set (row_values ws 1) \<longrightarrow>
        read_index_by_key ws key [] = None
        \<and> (\<forall>v i. v \<noteq> [] \<longrightarrow>
              (read_index_by_key ws key v = Some i) =
              (2 \<le> i \<and> i \<le> length ws
               \<and> cell (ws ! (i - 1)) (index_of (row_values ws 1) key + 1) = v
               \<and> (\<forall>j. i < j \<and> j \<le> length ws \<longrightarrow>
                      cell (ws ! (j - 1)) (index_of (row_values ws 1) key + 1) \<noteq> v))))"
  by (rule read_index_by_key_iff)

theorem read_index_by_key_last_row_witness:
  "''job_id'' \<in> set (row_values example_sheet 1)
   \<and> read_index_by_key example_sheet ''job_id'' ''a'' = Some 5
   \<and> cell (example_sheet ! 4) 2 = ''a''
   \<and> read_index_by_key example_sheet ''job_id'' ''b'' = Some 4
   \<and> read_index_by_key example_sheet ''job_id'' [] = None
   \<and> ''id'' \<notin> set (row_values example_sheet 1)
   \<and> read_index_by_key example_sheet ''id'' = Map.empty"
  using read_index_by_key_last_row [of "''job_id''" example_sheet]
    read_index_by_key_last_row [of "''id''" example_sheet]
  by (simp add: read_index_by_key_def example_sheet_def row_values_def col_values_def
      trim_trailing_def cell_def)

subsection \<open>Cell projection and the queued rows\<close>

lemma normalize_row_length: "length (normalize_row crepr dumps headers row) = length headers"
  by (induction headers) (simp_all add: Let_def)

lemma normalize_row_nth:
  "i < length headers \<Longrightarrow>
   normalize_row crepr dumps headers row ! i = normalize_cell crepr dumps (dget row (headers ! i))"
proof (induction headers arbitrary: i)
  case Nil
  then show ?case by simp
next
  case (Cons h hs)
  then show ?case by (cases i) (simp_all add: Let_def)
qed

lemma plan_rows_skip:
  "\<not> truthy (dget r key) \<Longrightarrow>
   plan_rows crepr dumps index headers key (rs1 @ r # rs2) = plan_rows crepr dumps index headers key (rs1 @ rs2)"
  by (induction rs1) (simp_all add: Let_def split: prod.splits)

lemma upsert_rows_skip:
  "\<not> truthy (dget r key) \<Longrightarrow>
   upsert_rows shown crepr dumps ws headers (rs1 @ r # rs2) key batch_size
   = upsert_rows shown crepr dumps ws headers (rs1 @ rs2) key batch_size"
  by (simp add: upsert_rows_def plan_rows_skip)

lemma ceil_div_step: "0 < n \<Longrightarrow> 0 < (m::nat) \<Longrightarrow> Suc ((m - n + n - 1) div n) = (m + n - 1) div n"
proof -
  assume n: "0 < n" and m: "0 < m"
  from m have e: "m + n - 1 = (m - 1) + n" by arith
  have "((m - 1) + n) div n = Suc ((m - 1) div n)" using n by simp
  then have r: "(m + n - 1) div n = Suc ((m - 1) div n)" by (simp only: e)
  show ?thesis
  proof (cases "n \<le> m")
    case True
    then have "m - n + n - 1 = m - 1" by arith
    with r show ?thesis by (simp only:)
  next
    case False
    then have a: "m - n + n - 1 = n - 1" by arith
    have b: "(n - 1) div n = 0" using n by simp
    have c: "(m - 1) div n = 0" using False by simp
    show ?thesis by (simp only: a b c r)
  qed
qed

lemma chunks_length: "0 < n \<Longrightarrow> length (chunks n xs) = (length xs + n - 1) div n"
proof (induction n xs rule: chunks.induct)
  case (1 n xs)
  show ?case
  proof (cases "xs = []")
    case True
    with 1 show ?thesis by (simp add: chunks.simps)
  next
    case False
    with 1 have a: "length (chunks n (drop n xs)) = (length xs - n + n - 1) div n" by simp
    have b: "chunks n xs = take n xs # chunks n (drop n xs)"
      using False 1(2) by (subst chunks.simps) simp
    from False have "0 < length xs" by simp
    with 1(2) have c: "Suc ((length xs - n + n - 1) div n) = (length xs + n - 1) div n"
      by (rule ceil_div_step)
    have "length (chunks n xs) = Suc (length (chunks n (drop n xs)))"
      by (simp only: b list.size)
    then show ?thesis by (simp only: a c)
  qed
qed

lemma chunks_concat: "0 < n \<Longrightarrow> concat (chunks n xs) = xs"
  by (induction n xs rule: chunks.induct) (subst chunks.simps, simp)

lemma chunks_nonempty: "0 < n \<Longrightarrow> c \<in> set (chunks n xs) \<Longrightarrow> c \<noteq> [] \<and> length c \<le> n"
  apply (induction n xs rule: chunks.induct) 
  apply (subst (asm) (2) chunks.simps)
  apply (auto split: if_splits)
  done

text \<open>
  Claim C8. \<^verbatim>\<open>_normalize_row\<close> gives one cell per header column, in header order: for a
  list value the \<^verbatim>\<open>str\<close> of its elements joined by a comma and a space, for a dict value
  its JSON text, and any other value (null included) unchanged. A record whose key value
  is falsy (missing, null and the empty string are) is skipped: \<^verbatim>\<open>upsert_rows\<close> makes
  the same calls and leaves the same worksheet with or without it.
\<close>

theorem normalize_row_cells:
  "length (normalize_row crepr dumps headers row) = length headers
   \<and> (\<forall>i<length headers.
         (\<forall>xs. dget row (headers ! i) = PList xs \<longrightarrow>
               normalize_row crepr dumps headers row ! i = PStr (join '', '' (map (pystr crepr) xs)))
       \<and> (\<forall>d. dget row (headers ! i) = PDict d \<longrightarrow>
               normalize_row crepr dumps headers row ! i = PStr (dumps (PDict d)))
       \<and> ((\<forall>xs. dget row (headers ! i) \<noteq> PList xs) \<and> (\<forall>d. dget row (headers ! i) \<noteq> PDict d) \<longrightarrow>
               normalize_row crepr dumps headers row ! i = dget row (headers ! i)))
   \<and> (map_of r key = None \<or> dget r key = PNone \<or> dget r key = PStr [] \<longrightarrow> \<not> truthy (dget r key))
   \<and> (\<not> truthy (dget r key) \<longrightarrow>
        upsert_rows shown crepr dumps ws headers (rs1 @ r # rs2) key batch_size
        = upsert_rows shown crepr dumps ws headers (rs1 @ rs2) key batch_size)"
proof (intro conjI allI impI)
  show "length (normalize_row crepr dumps headers row) = length headers"
    by (rule normalize_row_length)
next
  fix i xs
  assume "i < length headers" "dget row (headers ! i) = PList xs"
  then show "normalize_row crepr dumps headers row ! i = PStr (join '', '' (map (pystr crepr) xs))"
    by (simp add: normalize_row_nth normalize_cell_def)
next
  fix i d
  assume "i < length headers" "dget row (headers ! i) = PDict d"
  then show "normalize_row crepr dumps headers row ! i = PStr (dumps (PDict d))"
    by (simp add: normalize_row_nth normalize_cell_def)
next
  fix i
  assume "i < length headers"
    "(\<forall>xs. dget row (headers ! i) \<noteq> PList xs) \<and> (\<forall>d. dget row (headers ! i) \<noteq> PDict d)"
  then show "normalize_row crepr dumps headers row ! i = dget row (headers ! i)"
    by (simp add: normalize_row_nth normalize_cell_def split: pyval.splits)
next
  assume "map_of r key = None \<or> dget r key = PNone \<or> dget r key = PStr []"
  then show "\<not> truthy (dget r key)"
    by (auto simp: dget_def)
next
  assume "\<not> truthy (dget r key)"
  then show "upsert_rows shown crepr dumps ws headers (rs1 @ r # rs2) key batch_size
        = upsert_rows shown crepr dumps ws headers (rs1 @ rs2) key batch_size"
    by (rule upsert_rows_skip)
qed

theorem normalize_row_cells_witness:
  "normalize_row fixed_repr fixed_repr [''job_id'', ''skills'', ''relevance'', ''title''] example_row
     = [PStr ''a'', PStr ''sql, 3'', PStr ''?'', PNone]
   \<and> \<not> truthy (dget [(''title'', PStr ''t'')] ''job_id'')
   \<and> upsert_rows text_shown fixed_repr fixed_repr [] [''job_id'', ''skills'', ''relevance'', ''title'']
       ([example_row] @ [(''title'', PStr ''t'')] # []) ''job_id'' 200
     = upsert_rows text_shown fixed_repr fixed_repr [] [''job_id'', ''skills'', ''relevance'', ''title'']
       ([example_row] @ []) ''job_id'' 200"
  using normalize_row_cells [where crepr = fixed_repr and dumps = fixed_repr
      and headers = "[''job_id'', ''skills'', ''relevance'', ''title'']" and row = example_row
      and r = "[(''title'', PStr ''t'')]" and key = "''job_id''" and shown = text_shown
      and ws = "[]" and ?rs1.0 = "[example_row]" and ?rs2.0 = "[]" and batch_size = 200]
  by (simp add: example_row_def fixed_repr_def dget_def str_int_def digits.simps normalize_cell_def)

subsection \<open>The calls of the upsert and what they do to the key column\<close>

lemma fold_batch_calls:
  "fold (apply_call shown) (map Batch_update cs) w =
   fold (\<lambda>(row_num, vals) w. write_row w row_num (map shown vals)) (concat cs) w"
  by (induction cs arbitrary: w) simp_all

lemma fold_append_calls:
  "fold (apply_call shown) (map Append_rows cs) w = w @ map (map shown) (concat cs)"
  by (induction cs arbitrary: w) simp_all

lemma batch_updates_of_append:
  "batch_updates_of (xs @ ys) = batch_updates_of xs @ batch_updates_of ys"
  by (induction xs rule: batch_updates_of.induct) simp_all

lemma appends_of_append: "appends_of (xs @ ys) = appends_of xs @ appends_of ys"
  by (induction xs rule: appends_of.induct) simp_all

lemma calls_of_ensure_headers:
  "batch_updates_of (ensure_headers ws headers) = [] \<and> appends_of (ensure_headers ws headers) = []"
  by (simp add: ensure_headers_def Let_def)

lemma calls_of_batch_updates:
  "batch_updates_of (map Batch_update cs) = cs \<and> appends_of (map Batch_update cs) = []"
  by (induction cs) simp_all

lemma calls_of_appends:
  "batch_updates_of (map Append_rows cs) = [] \<and> appends_of (map Append_rows cs) = cs"
  by (induction cs) simp_all

lemma index_loop_none:
  "index_loop idx i vals v = None \<longleftrightarrow> idx v = None \<and> (v = [] \<or> v \<notin> set vals)"
  by (induction vals arbitrary: idx i) auto

lemma index_of_less: "x \<in> set xs \<Longrightarrow> index_of xs x < length xs \<and> xs ! index_of xs x = x"
  by (induction xs) auto

lemma index_of_append: "x \<in> set xs \<Longrightarrow> index_of (xs @ ys) x = index_of xs x"
  by (induction xs) auto

lemma trim_trailing_mem:
  "x \<noteq> [] \<Longrightarrow> x \<in> set xs \<Longrightarrow> x \<in> set (trim_trailing xs)"
  using trim_trailing_decomp [of xs] by (metis Un_iff in_set_replicate set_append)

lemma trim_trailing_index_of:
  "x \<noteq> [] \<Longrightarrow> x \<in> set xs \<Longrightarrow> index_of (trim_trailing xs) x = index_of xs x"
  using trim_trailing_decomp [of xs] trim_trailing_mem [of x xs] by (metis index_of_append)

lemma trim_trailing_tl_mem:
  "x \<noteq> [] \<Longrightarrow> x \<in> set (tl xs) \<Longrightarrow> x \<in> set (tl (trim_trailing xs))"
proof -
  assume x: "x \<noteq> []" and m: "x \<in> set (tl xs)"
  obtain n where n: "xs = trim_trailing xs @ replicate n []"
    using trim_trailing_decomp by blast
  show ?thesis
  proof (cases "trim_trailing xs = []")
    case True
    with n have "xs = replicate n []" by simp
    then have "set (tl xs) \<subseteq> {[]}" by (metis in_set_replicate list.set_sel(2) singletonI subsetI tl_Nil)
    with m x show ?thesis by auto
  next
    case False
    then have "tl xs = tl (trim_trailing xs) @ replicate n []" using n by (metis tl_append2)
    with m x show ?thesis by (metis Un_iff in_set_replicate set_append)
  qed
qed

lemma trim_trailing_tl_sub: "x \<in> set (tl (trim_trailing xs)) \<Longrightarrow> x \<in> set (tl xs)"
proof -
  assume m: "x \<in> set (tl (trim_trailing xs))"
  obtain n where n: "xs = trim_trailing xs @ replicate n []"
    using trim_trailing_decomp by blast
  from m have "trim_trailing xs \<noteq> []" by auto
  then have "tl xs = tl (trim_trailing xs) @ replicate n []" using n by (metis tl_append2)
  with m show ?thesis by simp
qed

lemma write_row_inside:
  "1 \<le> t \<Longrightarrow> t \<le> length w \<Longrightarrow>
   write_row w t vs = w[t - 1 := vs @ drop (length vs) (w ! (t - 1))]"
  by (simp add: write_row_def)

lemma cell_of_written:
  "1 \<le> kc \<Longrightarrow> kc \<le> length vs \<Longrightarrow> cell (vs @ rest) kc = vs ! (kc - 1)"
proof -
  assume a: "1 \<le> kc" "kc \<le> length vs"
  then have "kc - 1 < length vs" by arith
  then have "(vs @ rest) ! (kc - 1) = vs ! (kc - 1)" by (simp only: nth_append if_True)
  with a show ?thesis by (simp add: cell_def)
qed

lemma write_row_keeps_keys:
  assumes "2 \<le> t" "t \<le> length w" "1 \<le> kc" "kc \<le> length vs"
    and "vs ! (kc - 1) = map (\<lambda>row. cell row kc) w ! (t - 1)"
  shows "map (\<lambda>row. cell row kc) (write_row w t vs) = map (\<lambda>row. cell row kc) w"
    and "write_row w t vs ! 0 = w ! 0"
    and "length (write_row w t vs) = length w"
proof -
  from assms have w: "write_row w t vs = w[t - 1 := vs @ drop (length vs) (w ! (t - 1))]"
    by (simp add: write_row_inside)
  have "map (\<lambda>row. cell row kc) (w[t - 1 := vs @ drop (length vs) (w ! (t - 1))])
        = (map (\<lambda>row. cell row kc) w)[t - 1 := vs ! (kc - 1)]"
    using assms by (simp add: map_update cell_of_written)
  also have "\<dots> = map (\<lambda>row. cell row kc) w"
    using assms(5) by (simp only: list_update_id)
  finally show "map (\<lambda>row. cell row kc) (write_row w t vs) = map (\<lambda>row. cell row kc) w"
    using w by simp
  from assms(1) have "t - 1 \<noteq> 0" by arith
  then show "write_row w t vs ! 0 = w ! 0" using w by simp
  show "length (write_row w t vs) = length w" using w by simp
qed

lemma fold_writes_keep_keys:
  assumes "1 \<le> kc"
    and "\<forall>(t, vals) \<in> set entries. 2 \<le> t \<and> t \<le> length w \<and> kc \<le> length vals
           \<and> shown (vals ! (kc - 1)) = map (\<lambda>row. cell row kc) w ! (t - 1)"
  shows "map (\<lambda>row. cell row kc) (fold (\<lambda>(row_num, vals) w. write_row w row_num (map shown vals)) entries w)
           = map (\<lambda>row. cell row kc) w
         \<and> fold (\<lambda>(row_num, vals) w. write_row w row_num (map shown vals)) entries w ! 0 = w ! 0
         \<and> length (fold (\<lambda>(row_num, vals) w. write_row w row_num (map shown vals)) entries w) = length w"
  using assms(2)
proof (induction entries arbitrary: w)
  case Nil
  then show ?case by simp
next
  case (Cons e es)
  obtain t vals where e: "e = (t, vals)" by (cases e)
  let ?w = "write_row w t (map shown vals)"
  from Cons.prems e have p: "2 \<le> t" "t \<le> length w" "kc \<le> length (map shown vals)"
    "map shown vals ! (kc - 1) = map (\<lambda>row. cell row kc) w ! (t - 1)"
    using assms(1) by auto
  note k = write_row_keeps_keys [OF p(1) p(2) assms(1) p(3) p(4)]
  have "\<forall>(t, vals) \<in> set es. 2 \<le> t \<and> t \<le> length ?w \<and> kc \<le> length vals
           \<and> shown (vals ! (kc - 1)) = map (\<lambda>row. cell row kc) ?w ! (t - 1)"
    using Cons.prems k by auto
  from Cons.IH [OF this] show ?case
    using e k by simp
qed


lemma plan_rows_updates:
  "fst (plan_rows crepr dumps index headers key rows) =
     map (\<lambda>r. (the (index (pystr crepr (dget r key))), normalize_row crepr dumps headers r))
       (filter (\<lambda>r. truthy (dget r key) \<and> (\<exists>t. index (pystr crepr (dget r key)) = Some t \<and> t \<noteq> 0)) rows)"
  by (induction rows) (auto simp: Let_def split: prod.splits option.splits)

lemma plan_rows_appends:
  "snd (plan_rows crepr dumps index headers key rows) =
     map (normalize_row crepr dumps headers)
       (filter (\<lambda>r. truthy (dget r key) \<and> \<not> (\<exists>t. index (pystr crepr (dget r key)) = Some t \<and> t \<noteq> 0)) rows)"
  by (induction rows) (auto simp: Let_def split: prod.splits option.splits)

lemma read_index_ge_2: "read_index_by_key ws key v = Some t \<Longrightarrow> 2 \<le> t"
proof -
  assume a: "read_index_by_key ws key v = Some t"
  then have k: "key \<in> set (row_values ws 1)"
    by (auto simp: read_index_by_key_def Let_def split: if_splits)
  from a k have "v \<noteq> []"
    using read_index_by_key_iff [of key ws] by auto
  with a k show ?thesis
    using read_index_by_key_iff [of key ws] by blast
qed

lemma upsert_rows_calls:
  assumes "0 < batch_size"
  shows "\<exists>calls ws'. upsert_rows shown crepr dumps ws headers rows key batch_size = Inr (calls, ws')
     \<and> batch_updates_of calls = chunks (nat batch_size)
          (fst (plan_rows crepr dumps (read_index_by_key (fold (apply_call shown) (ensure_headers ws headers) ws) key) headers key rows))
     \<and> appends_of calls = chunks (nat batch_size)
          (snd (plan_rows crepr dumps (read_index_by_key (fold (apply_call shown) (ensure_headers ws headers) ws) key) headers key rows))"
  using assms calls_of_ensure_headers [of ws headers]
  by (simp add: upsert_rows_def Let_def split: prod.splits
      add: batch_updates_of_append appends_of_append calls_of_batch_updates calls_of_appends)

lemma upsert_rows_all_indexed:
  assumes b: "0 < batch_size"
    and i: "\<forall>r\<in>set rows. truthy (dget r key) \<longrightarrow>
         read_index_by_key (fold (apply_call shown) (ensure_headers ws headers) ws) key
           (pystr crepr (dget r key)) \<noteq> None"
  shows "\<exists>calls ws'. upsert_rows shown crepr dumps ws headers rows key batch_size = Inr (calls, ws')
     \<and> appends_of calls = []
     \<and> concat (batch_updates_of calls) =
         map (\<lambda>r. (the (read_index_by_key (fold (apply_call shown) (ensure_headers ws headers) ws) key
                         (pystr crepr (dget r key))),
                   normalize_row crepr dumps headers r))
           (filter (\<lambda>r. truthy (dget r key)) rows)
     \<and> length (batch_updates_of calls) =
         (length (filter (\<lambda>r. truthy (dget r key)) rows) + nat batch_size - 1) div nat batch_size"
proof -
  let ?index = "read_index_by_key (fold (apply_call shown) (ensure_headers ws headers) ws) key"
  let ?K = "\<lambda>r. pystr crepr (dget r key)"
  have f: "filter (\<lambda>r. truthy (dget r key) \<and> (\<exists>t. ?index (?K r) = Some t \<and> t \<noteq> 0)) rows
           = filter (\<lambda>r. truthy (dget r key)) rows"
  proof (rule filter_cong [OF refl])
    fix r assume r: "r \<in> set rows"
    show "(truthy (dget r key) \<and> (\<exists>t. ?index (?K r) = Some t \<and> t \<noteq> 0)) = truthy (dget r key)"
    proof (cases "truthy (dget r key)")
      case True
      with i r obtain t where t: "?index (?K r) = Some t" by auto
      then have "2 \<le> t" by (rule read_index_ge_2)
      with t True show ?thesis by auto
    next
      case False
      then show ?thesis by simp
    qed
  qed
  have g: "filter (\<lambda>r. truthy (dget r key) \<and> \<not> (\<exists>t. ?index (?K r) = Some t \<and> t \<noteq> 0)) rows = []"
  proof -
    have "\<forall>r\<in>set rows. \<not> (truthy (dget r key) \<and> \<not> (\<exists>t. ?index (?K r) = Some t \<and> t \<noteq> 0))"
    proof
      fix r assume r: "r \<in> set rows"
      show "\<not> (truthy (dget r key) \<and> \<not> (\<exists>t. ?index (?K r) = Some t \<and> t \<noteq> 0))"
      proof
        assume a: "truthy (dget r key) \<and> \<not> (\<exists>t. ?index (?K r) = Some t \<and> t \<noteq> 0)"
        with i r obtain t where t: "?index (?K r) = Some t" by auto
        then have "2 \<le> t" by (rule read_index_ge_2)
        with t a show False by auto
      qed
    qed
    then show ?thesis by (simp add: filter_empty_conv)
  qed
  from upsert_rows_calls [OF b, of shown crepr dumps ws headers rows key]
  obtain calls ws' where c: "upsert_rows shown crepr dumps ws headers rows key batch_size = Inr (calls, ws')"
    "batch_updates_of calls = chunks (nat batch_size) (fst (plan_rows crepr dumps ?index headers key rows))"
    "appends_of calls = chunks (nat batch_size) (snd (plan_rows crepr dumps ?index headers key rows))"
    by blast
  from b have n: "0 < nat batch_size" by simp
  have "appends_of calls = []"
    by (simp only: c(3) plan_rows_appends g list.map chunks.simps [of _ "[]"]) simp
  moreover have "concat (batch_updates_of calls) =
      map (\<lambda>r. (the (?index (?K r)), normalize_row crepr dumps headers r)) (filter (\<lambda>r. truthy (dget r key)) rows)"
    by (simp only: c(2) chunks_concat [OF n] plan_rows_updates f)
  moreover have "length (batch_updates_of calls) =
      (length (filter (\<lambda>r. truthy (dget r key)) rows) + nat batch_size - 1) div nat batch_size"
    by (simp only: c(2) chunks_length [OF n] plan_rows_updates f length_map)
  ultimately show ?thesis using c(1) by blast
qed

text \<open>The first row and the rows below it after \<^verbatim>\<open>ensure_headers\<close>, and what the worksheet
  holds in the key column after a call of \<^verbatim>\<open>upsert_rows\<close>.\<close>

lemma ensure_headers_row:
  assumes k: "key \<in> set headers" "key \<noteq> []"
  shows "key \<in> set (row_values (fold (apply_call shown) (ensure_headers ws headers) ws) 1)
     \<and> index_of (row_values (fold (apply_call shown) (ensure_headers ws headers) ws) 1) key = index_of headers key
     \<and> tl (fold (apply_call shown) (ensure_headers ws headers) ws) = tl ws"
proof (cases "row_values ws 1 = headers")
  case True
  then show ?thesis using k by (simp add: ensure_headers_def)
next
  case False
  let ?w = "write_row ws 1 headers"
  have w: "fold (apply_call shown) (ensure_headers ws headers) ws = ?w"
    using False by (simp add: ensure_headers_def Let_def)
  have r: "\<exists>rest. ?w = (headers @ rest) # tl ws"
  proof (cases ws)
    case Nil
    then show ?thesis by (simp add: write_row_def)
  next
    case (Cons x xs)
    then show ?thesis by (simp add: write_row_def)
  qed
  then obtain rest where rest: "?w = (headers @ rest) # tl ws" by blast
  have rv: "row_values ?w 1 = trim_trailing (headers @ rest)"
    unfolding rest by (simp add: row_values_def)
  have m: "key \<in> set (headers @ rest)" using k by simp
  have "key \<in> set (row_values ?w 1)"
    unfolding rv using k(2) m by (rule trim_trailing_mem)
  moreover have "index_of (row_values ?w 1) key = index_of headers key"
    unfolding rv using trim_trailing_index_of [OF k(2) m] index_of_append [OF k(1)] by simp
  moreover have "tl ?w = tl ws" unfolding rest by simp
  ultimately show ?thesis unfolding w by blast
qed

lemma read_index_mem:
  assumes "key \<in> set (row_values w 1)" "v \<noteq> []"
    and "v \<in> set (tl (map (\<lambda>row. cell row (index_of (row_values w 1) key + 1)) w))"
  shows "read_index_by_key w key v \<noteq> None"
proof -
  have "v \<in> set (tl (col_values w (index_of (row_values w 1) key + 1)))"
    unfolding col_values_def using assms(2,3) by (rule trim_trailing_tl_mem)
  then show ?thesis
    using assms(1,2) by (simp add: read_index_by_key_def Let_def index_loop_none)
qed

lemma upsert_rows_result:
  assumes "0 < batch_size"
  shows "\<exists>calls. upsert_rows shown crepr dumps ws headers rows key batch_size =
     Inr (calls,
       fold (\<lambda>(row_num, vals) w. write_row w row_num (map shown vals))
         (fst (plan_rows crepr dumps (read_index_by_key (fold (apply_call shown) (ensure_headers ws headers) ws) key) headers key rows))
         (fold (apply_call shown) (ensure_headers ws headers) ws)
       @ map (map shown)
         (snd (plan_rows crepr dumps (read_index_by_key (fold (apply_call shown) (ensure_headers ws headers) ws) key) headers key rows)))"
proof -
  from assms have n: "0 < nat batch_size" by simp
  show ?thesis
    using assms
    by (simp add: upsert_rows_def Let_def split: prod.splits
        add: fold_batch_calls fold_append_calls chunks_concat [OF n])
qed


lemma in_tl_append: "xs \<noteq> [] \<Longrightarrow> x \<in> set (tl xs) \<or> x \<in> set ys \<Longrightarrow> x \<in> set (tl (xs @ ys))"
  by (cases xs) auto

lemma nth_in_tl: "1 \<le> n \<Longrightarrow> n < length xs \<Longrightarrow> xs ! n \<in> set (tl xs)"
  by (cases xs; cases n) auto

lemma first_call_keys:
  assumes k: "key \<in> set headers" "key \<noteq> []"
    and h: "\<forall>r\<in>set rows. truthy (dget r key) \<longrightarrow>
              pystr crepr (dget r key) \<noteq> []
              \<and> shown (normalize_cell crepr dumps (dget r key)) = pystr crepr (dget r key)"
    and r: "r \<in> set rows" "truthy (dget r key)"
  shows "pystr crepr (dget r key) \<in> set (tl (map (\<lambda>row. cell row (index_of headers key + 1))
     (fold (\<lambda>(row_num, vals) w. write_row w row_num (map shown vals))
         (fst (plan_rows crepr dumps (read_index_by_key (fold (apply_call shown) (ensure_headers ws headers) ws) key) headers key rows))
         (fold (apply_call shown) (ensure_headers ws headers) ws)
       @ map (map shown)
         (snd (plan_rows crepr dumps (read_index_by_key (fold (apply_call shown) (ensure_headers ws headers) ws) key) headers key rows)))))"
proof -
  let ?W1 = "fold (apply_call shown) (ensure_headers ws headers) ws"
  let ?index = "read_index_by_key ?W1 key"
  let ?K = "\<lambda>r. pystr crepr (dget r key)"
  let ?kc = "index_of headers key + 1"
  let ?U = "fst (plan_rows crepr dumps ?index headers key rows)"
  let ?A = "snd (plan_rows crepr dumps ?index headers key rows)"
  let ?col = "\<lambda>w. map (\<lambda>row. cell row ?kc) w"
  let ?Wu = "fold (\<lambda>(row_num, vals) w. write_row w row_num (map shown vals)) ?U ?W1"
  from ensure_headers_row [OF k, of shown ws]
  have e: "key \<in> set (row_values ?W1 1)" "index_of (row_values ?W1 1) key = index_of headers key"
    by blast+
  from index_of_less [OF k(1)] have kl: "?kc \<le> length headers" "headers ! (?kc - 1) = key" by simp_all
  have idx: "\<And>v i. v \<noteq> [] \<Longrightarrow> ?index v = Some i \<Longrightarrow>
      2 \<le> i \<and> i \<le> length ?W1 \<and> cell (?W1 ! (i - 1)) ?kc = v"
    using read_index_by_key_iff [of key ?W1] e by simp
  have keycell: "\<And>x. x \<in> set rows \<Longrightarrow> truthy (dget x key) \<Longrightarrow>
      shown (normalize_row crepr dumps headers x ! (?kc - 1)) = ?K x"
  proof -
    fix x assume "x \<in> set rows" "truthy (dget x key)"
    with h have "shown (normalize_cell crepr dumps (dget x key)) = ?K x" by blast
    moreover have "normalize_row crepr dumps headers x ! (?kc - 1) = normalize_cell crepr dumps (dget x key)"
      using kl normalize_row_nth [of "?kc - 1" headers crepr dumps x] by simp
    ultimately show "shown (normalize_row crepr dumps headers x ! (?kc - 1)) = ?K x" by simp
  qed
  have ent: "\<forall>(t, vals) \<in> set ?U. 2 \<le> t \<and> t \<le> length ?W1 \<and> ?kc \<le> length vals
           \<and> shown (vals ! (?kc - 1)) = map (\<lambda>row. cell row ?kc) ?W1 ! (t - 1)"
  proof (clarify)
    fix t vals assume "(t, vals) \<in> set ?U"
    then obtain x where x: "x \<in> set rows" "truthy (dget x key)" "?index (?K x) = Some t"
        "vals = normalize_row crepr dumps headers x"
      unfolding plan_rows_updates by auto
    from h x(1,2) have ne: "?K x \<noteq> []" by blast
    from idx [OF ne x(3)] have i: "2 \<le> t" "t \<le> length ?W1" "cell (?W1 ! (t - 1)) ?kc = ?K x" by blast+
    from i(1,2) have "map (\<lambda>row. cell row ?kc) ?W1 ! (t - 1) = cell (?W1 ! (t - 1)) ?kc" by simp
    with i keycell [OF x(1,2)] kl(1) x(4)
    show "2 \<le> t \<and> t \<le> length ?W1 \<and> ?kc \<le> length vals
           \<and> shown (vals ! (?kc - 1)) = map (\<lambda>row. cell row ?kc) ?W1 ! (t - 1)"
      by (simp add: normalize_row_length)
  qed
  have kc1: "1 \<le> ?kc" by simp
  have ne1: "?col ?W1 \<noteq> []"
  proof
    assume "?col ?W1 = []"
    then have "row_values ?W1 1 = []" by (simp add: row_values_def)
    with e(1) show False by simp
  qed
  from fold_writes_keep_keys [OF kc1 ent]
  have keep: "?col ?Wu = ?col ?W1" by blast
  have col: "?col (?Wu @ map (map shown) ?A) = ?col ?W1 @ map (\<lambda>vals. cell (map shown vals) ?kc) ?A"
    using keep by (simp add: comp_def)
  show ?thesis
  proof (cases "?index (?K r)")
    case None
    then have "r \<in> set (filter (\<lambda>r. truthy (dget r key) \<and> \<not> (\<exists>t. ?index (?K r) = Some t \<and> t \<noteq> 0)) rows)"
      using r by simp
    then have a: "normalize_row crepr dumps headers r \<in> set ?A"
      unfolding plan_rows_appends by simp
    have "cell (map shown (normalize_row crepr dumps headers r)) ?kc = ?K r"
      using kl(1) keycell [OF r] by (simp add: cell_def normalize_row_length)
    with a have "?K r \<in> set (map (\<lambda>vals. cell (map shown vals) ?kc) ?A)" by force
    then have "?K r \<in> set (tl (?col ?W1 @ map (\<lambda>vals. cell (map shown vals) ?kc) ?A))"
      by (intro in_tl_append [OF ne1] disjI2)
    then show ?thesis unfolding col .
  next
    case (Some t)
    from h r have ne: "?K r \<noteq> []" by blast
    from idx [OF ne Some] have i: "2 \<le> t" "t \<le> length ?W1" "cell (?W1 ! (t - 1)) ?kc = ?K r" by blast+
    then have "?col ?W1 ! (t - 1) = ?K r" by simp
    moreover from i have "t - 1 < length (?col ?W1)" "1 \<le> t - 1" by simp_all
    ultimately have "?K r \<in> set (tl (?col ?W1))"
      using nth_in_tl [of "t - 1" "?col ?W1"] by (simp only:)
    then have "?K r \<in> set (tl (?col ?W1 @ map (\<lambda>vals. cell (map shown vals) ?kc) ?A))"
      by (intro in_tl_append [OF ne1] disjI1)
    then show ?thesis unfolding col .
  qed
qed

text \<open>
  Claim C1, as the code has it. \<^verbatim>\<open>upsert_rows\<close> compares no cell: a record whose key is in the
  row index is queued for a range update whether or not its row already holds the same
  values. Take two calls in a row with the same headers, records, key field and positive
  batch size, the second on the worksheet the first has left, where the key field is a
  non-empty header and the sheet shows the key cell of every record with a key as the
  non-empty text \<^verbatim>\<open>str(row[key])\<close>. Both calls return. The second makes no append call, and
  it makes the batched range updates again: one entry per record with a key, in input
  order, in \<open>\<lceil>n / batch_size\<rceil>\<close> calls for \<open>n\<close> such records.
\<close>

theorem upsert_rows_twice:
  assumes b: "0 < batch_size"
    and k: "key \<in> set headers" "key \<noteq> []"
    and h: "\<forall>r\<in>set rows. truthy (dget r key) \<longrightarrow>
              pystr crepr (dget r key) \<noteq> []
              \<and> shown (normalize_cell crepr dumps (dget r key)) = pystr crepr (dget r key)"
  shows "\<exists>calls1 ws1 calls2 ws2.
       upsert_rows shown crepr dumps ws headers rows key batch_size = Inr (calls1, ws1)
     \<and> upsert_rows shown crepr dumps ws1 headers rows key batch_size = Inr (calls2, ws2)
     \<and> appends_of calls2 = []
     \<and> map snd (concat (batch_updates_of calls2)) =
         map (normalize_row crepr dumps headers) (filter (\<lambda>r. truthy (dget r key)) rows)
     \<and> length (batch_updates_of calls2) =
         (length (filter (\<lambda>r. truthy (dget r key)) rows) + nat batch_size - 1) div nat batch_size"
proof -
  let ?K = "\<lambda>r. pystr crepr (dget r key)"
  from upsert_rows_result [OF b, of shown crepr dumps ws headers rows key]
  obtain calls1 ws1 where c1: "upsert_rows shown crepr dumps ws headers rows key batch_size = Inr (calls1, ws1)"
    and w: "ws1 = fold (\<lambda>(row_num, vals) w. write_row w row_num (map shown vals))
         (fst (plan_rows crepr dumps (read_index_by_key (fold (apply_call shown) (ensure_headers ws headers) ws) key) headers key rows))
         (fold (apply_call shown) (ensure_headers ws headers) ws)
       @ map (map shown)
         (snd (plan_rows crepr dumps (read_index_by_key (fold (apply_call shown) (ensure_headers ws headers) ws) key) headers key rows))"
    by blast
  let ?W2 = "fold (apply_call shown) (ensure_headers ws1 headers) ws1"
  from ensure_headers_row [OF k, of shown ws1]
  have e: "key \<in> set (row_values ?W2 1)" "index_of (row_values ?W2 1) key = index_of headers key"
    "tl ?W2 = tl ws1" by blast+
  have i2: "\<forall>r\<in>set rows. truthy (dget r key) \<longrightarrow> read_index_by_key ?W2 key (?K r) \<noteq> None"
  proof (intro ballI impI)
    fix r assume r: "r \<in> set rows" "truthy (dget r key)"
    from first_call_keys [OF k h r, of ws]
    have "?K r \<in> set (tl (map (\<lambda>row. cell row (index_of headers key + 1)) ws1))"
      unfolding w .
    then have "?K r \<in> set (map (\<lambda>row. cell row (index_of headers key + 1)) (tl ws1))"
      by (simp only: map_tl)
    then have "?K r \<in> set (map (\<lambda>row. cell row (index_of headers key + 1)) (tl ?W2))"
      by (simp only: e(3))
    then have "?K r \<in> set (tl (map (\<lambda>row. cell row (index_of (row_values ?W2 1) key + 1)) ?W2))"
      by (simp only: map_tl e(2))
    moreover from h r have "?K r \<noteq> []" by blast
    ultimately show "read_index_by_key ?W2 key (?K r) \<noteq> None"
      using read_index_mem [OF e(1)] by blast
  qed
  from upsert_rows_all_indexed [OF b i2]
  obtain calls2 ws2 where c2: "upsert_rows shown crepr dumps ws1 headers rows key batch_size = Inr (calls2, ws2)"
    "appends_of calls2 = []"
    "concat (batch_updates_of calls2) =
         map (\<lambda>r. (the (read_index_by_key ?W2 key (?K r)), normalize_row crepr dumps headers r))
           (filter (\<lambda>r. truthy (dget r key)) rows)"
    "length (batch_updates_of calls2) =
         (length (filter (\<lambda>r. truthy (dget r key)) rows) + nat batch_size - 1) div nat batch_size"
    by blast
  have "map snd (concat (batch_updates_of calls2)) =
         map (normalize_row crepr dumps headers) (filter (\<lambda>r. truthy (dget r key)) rows)"
    unfolding c2(3) by (simp add: comp_def)
  with c1 c2(1,2,4) show ?thesis by blast
qed

theorem upsert_rows_twice_witness:
  "(0::int) < 1 \<and> ''job_id'' \<in> set [''title'', ''job_id'']
   \<and> pystr fixed_repr (dget [(''job_id'', PStr ''a''), (''title'', PStr ''t'')] ''job_id'') = ''a''
   \<and> text_shown (normalize_cell fixed_repr fixed_repr (dget [(''job_id'', PStr ''a''), (''title'', PStr ''t'')] ''job_id'')) = ''a''
   \<and> \<not> truthy (dget [(''title'', PStr ''u'')] ''job_id'')
   \<and> pystr fixed_repr (dget [(''job_id'', PStr ''b'')] ''job_id'') = ''b''
   \<and> text_shown (normalize_cell fixed_repr fixed_repr (dget [(''job_id'', PStr ''b'')] ''job_id'')) = ''b''
   \<and> (\<exists>calls1 ws1 calls2 ws2.
       upsert_rows text_shown fixed_repr fixed_repr [[''title'', ''job_id''], [''old'', ''b'']] [''title'', ''job_id'']
         [[(''job_id'', PStr ''a''), (''title'', PStr ''t'')], [(''title'', PStr ''u'')], [(''job_id'', PStr ''b'')]]
         ''job_id'' 1 = Inr (calls1, ws1)
     \<and> upsert_rows text_shown fixed_repr fixed_repr ws1 [''title'', ''job_id'']
         [[(''job_id'', PStr ''a''), (''title'', PStr ''t'')], [(''title'', PStr ''u'')], [(''job_id'', PStr ''b'')]]
         ''job_id'' 1 = Inr (calls2, ws2)
     \<and> appends_of calls2 = []
     \<and> map snd (concat (batch_updates_of calls2)) = [[PStr ''t'', PStr ''a''], [PNone, PStr ''b'']]
     \<and> length (batch_updates_of calls2) = 2)"
  using upsert_rows_twice [where batch_size = 1 and key = "''job_id''" and headers = "[''title'', ''job_id'']"
      and rows = "[[(''job_id'', PStr ''a''), (''title'', PStr ''t'')], [(''title'', PStr ''u'')], [(''job_id'', PStr ''b'')]]"
      and crepr = fixed_repr and dumps = fixed_repr and shown = text_shown
      and ws = "[[''title'', ''job_id''], [''old'', ''b'']]"]
  by (simp add: dget_def normalize_cell_def text_shown_def numeral_2_eq_2)

text \<open>
  The claim as the specification states it fails: after a first call has appended the
  record, the identical second call finds the row and issues one batched range update
  for it, although the row already matches. When the key field is no header the second
  call even appends again: the row index is empty at every call.
\<close>

theorem upsert_rows_twice_counterexample:
  "upsert_rows text_shown fixed_repr fixed_repr [] [''job_id''] [[(''job_id'', PStr ''a'')]] ''job_id'' 200
     = Inr ([Update_row1 [''job_id''], Append_rows [[PStr ''a'']]], [[''job_id''], [''a'']])
   \<and> upsert_rows text_shown fixed_repr fixed_repr [[''job_id''], [''a'']] [''job_id''] [[(''job_id'', PStr ''a'')]] ''job_id'' 200
     = Inr ([Batch_update [(2, [PStr ''a''])]], [[''job_id''], [''a'']])
   \<and> upsert_rows text_shown fixed_repr fixed_repr [] [''title'']
       [[(''job_id'', PStr ''a''), (''title'', PStr ''t'')]] ''job_id'' 200
     = Inr ([Update_row1 [''title''], Append_rows [[PStr ''t'']]], [[''title''], [''t'']])
   \<and> upsert_rows text_shown fixed_repr fixed_repr [[''title''], [''t'']] [''title'']
       [[(''job_id'', PStr ''a''), (''title'', PStr ''t'')]] ''job_id'' 200
     = Inr ([Append_rows [[PStr ''t'']]], [[''title''], [''t''], [''t'']])"
  by (simp add: upsert_rows_def ensure_headers_def row_values_def write_row_def read_index_by_key_def
     col_values_def trim_trailing_def cell_def dget_def chunks.simps text_shown_def normalize_cell_def)


subsection \<open>Batch metadata from the file name\<close>

lemma replicate_numeral: "replicate (numeral k) x = x # replicate (pred_numeral k) x"
  by (simp add: numeral_eq_Suc)

lemmas filename_eval =
  strptime_def re_Y_def re_m_def re_d_def re_H_def re_M_def re_S_def re_f_def
  alternatives_def List.map_filter_simps is_digit_def between_def int_of_digits_def
  days_in_month_def is_leap_def replicate_numeral match_filename_def strict_tail_def
  relaxed_tail_def at_end_def parse_filename_metadata_def isoformat_def pad_def digits.simps
  str_int_def path_stem_def

text \<open>The time stamp of the example, as a date and time and as the text returned.\<close>

lemma strptime_example:
  "strptime ''20250810112529289'' =
     Inr \<lparr>year = 2025, month = 8, day = 10, hour = 11, minute = 25, second = 29,
          microsecond = 289000\<rparr>"
  by (simp add: filename_eval del: fold_replicate)

text \<open>Fourteen digits do parse: the backtracking search gives the last digit to \<^verbatim>\<open>%f\<close>.\<close>

lemma strptime_fourteen_digits:
  "strptime ''20250810112529'' =
     Inr \<lparr>year = 2025, month = 8, day = 10, hour = 11, minute = 25, second = 2,
          microsecond = 900000\<rparr>"
  by (simp add: filename_eval del: fold_replicate)

text \<open>Whenever the name matches and the function returns, the search id is the composite.\<close>

lemma parse_filename_metadata_composite:
  assumes "parse_filename_metadata filename = Inr meta"
    and "(case match_filename strict_tail filename of Some g \<Rightarrow> Some g
          | None \<Rightarrow> match_filename relaxed_tail filename) = Some (sid, q, page_str)"
  shows "dget meta ''search_id'' =
           PStr (if page_str \<noteq> [] \<and> list_all is_digit page_str
                 then sid @ ''-'' @ q @ ''-page'' @ str_int (int (int_of_digits page_str))
                 else sid @ ''-'' @ q @ ''-page'')
         \<and> dget meta ''query'' = PStr q"
  using assms
  by (auto simp: parse_filename_metadata_def Let_def dget_def split: option.splits sum.splits if_splits)

lemma parse_filename_metadata_unparsed:
  assumes "(case match_filename strict_tail filename of Some g \<Rightarrow> Some g
          | None \<Rightarrow> match_filename relaxed_tail filename) = Some (sid, q, page_str)"
    and "strptime sid = Inl e"
  shows "parse_filename_metadata filename = Inl AttributeError"
  using assms by (simp add: parse_filename_metadata_def Let_def)

text \<open>
  Claim C3. \<^verbatim>\<open>parse_filename_metadata\<close> should never raise and should leave the time stamp
  unset when the leading digits are no time stamp. The code keeps \<^verbatim>\<open>query_ts = None\<close> in that
  case and then calls \<^verbatim>\<open>query_ts.isoformat()\<close>: it raises AttributeError, here for a digit
  run with month 00 and for the 30th of February.
\<close>

theorem parse_filename_metadata_raises:
  "parse_filename_metadata ''00000000000000-q-page1.json'' = Inl AttributeError
   \<and> parse_filename_metadata ''20250230120000000-q-page1.json'' = Inl AttributeError"
  by (simp add: filename_eval del: fold_replicate)

text \<open>
  Claim C7. The example file name gives the composite search id, the query, the page and
  the time stamp 2025-08-10T11:25:29.289 UTC. But not every name whose digit run, query
  and page match gets a search id: for the digit run 20259999999999999 (the format reads
  month 9, day 9, hour 9, minute 9, second 9 and six digits of fraction, and two digits
  are left over) the strict pattern matches and the function raises instead of returning.
\<close>

theorem parse_filename_metadata_example:
  "parse_filename_metadata ''20250810112529289-data ai engineer-page3.json'' =
     Inr [(''search_id'', PStr ''20250810112529289-data ai engineer-page3''),
          (''query_timestamp'', PStr ''2025-08-10T11:25:29.289000+00:00''),
          (''query'', PStr ''data ai engineer''), (''page'', PInt 3)]
   \<and> match_filename strict_tail ''20259999999999999-data ai engineer-page3.json''
       = Some (''20259999999999999'', ''data ai engineer'', ''3'')
   \<and> parse_filename_metadata ''20259999999999999-data ai engineer-page3.json'' = Inl AttributeError"
  by (simp add: filename_eval del: fold_replicate)


subsection \<open>The record normalizer\<close>

lemmas flat_eval = flatten_record_def and_then_def py_or_def dget_def extract_skill_names_def Let_def
  safe_float_def get_job_type_def strip_html_def after_last_dot_def between_underscores_def no_float_def no_loads_def
  payload_first_def payload_second_def

lemma and_then_cases:
  assumes "and_then m f = Inr y"
  obtains x where "m = Inr x" "f x = Inr y"
  using assms by (cases m) (simp_all add: and_then_def)

lemma dget_cons: "dget ((k, v) # d) k' = (if k = k' then v else dget d k')"
  by (simp add: dget_def)

text \<open>What holds of every record the normalizer returns: the job id is null or a string,
  and the skills are a list.\<close>

lemma flatten_record_shape:
  assumes "flatten_record crepr py_float loads record = Inr out"
  shows "(dget out ''job_id'' = PNone \<or> (\<exists>s. dget out ''job_id'' = PStr s))
         \<and> (\<exists>xs. dget out ''skills'' = PList xs)"
  using assms unfolding flatten_record_def Let_def
  by (elim and_then_cases) (clarsimp simp: dget_cons)

text \<open>
  Claim C4. \<^verbatim>\<open>flatten_record\<close> should never raise. It guards the client's country with
  \<^verbatim>\<open>isinstance(client, dict)\<close> and then calls \<^verbatim>\<open>client.get("totalSpent")\<close> outside the guard:
  a client that is a non-empty string raises AttributeError, whatever \<^verbatim>\<open>str\<close>, \<^verbatim>\<open>float\<close> and
  \<^verbatim>\<open>json.loads\<close> do. So does a number under \<^verbatim>\<open>amount\<close>, and a list under \<^verbatim>\<open>type\<close> raises
  TypeError (it is no dict key).
\<close>

theorem flatten_record_raises:
  "flatten_record crepr py_float loads [(''uid'', PInt 7), (''client'', PStr ''acme'')] = Inl AttributeError
   \<and> flatten_record crepr py_float loads [(''uid'', PInt 7), (''amount'', PInt 5)] = Inl AttributeError
   \<and> flatten_record crepr no_float loads [(''uid'', PInt 7), (''type'', PList [])] = Inl TypeError"
  by (simp add: flat_eval)

subsection \<open>De-duplication\<close>

lemma flatten_payload_first: "flatten_record fixed_repr no_float no_loads payload_first =
  Inr [(''job_id'', PStr ''123''), (''url'', PNone), (''title'', PNone),
       (''description'', PStr ''first text''), (''skills'', PList []),
       (''created_on'', PNone), (''published_on'', PNone), (''renewed_on'', PNone),
       (''duration_label'', PNone), (''connect_price'', PNone), (''job_type'', PNone),
       (''engagement'', PNone), (''proposals_tier'', PNone), (''tier_text'', PNone),
       (''fixed_budget'', PNone), (''weekly_budget'', PNone), (''hourly_budget_min'', PNone),
       (''hourly_budget_max'', PNone), (''currency'', PStr ''USD''), (''client_country'', PNone),
       (''client_total_spent'', PNone), (''client_payment_verified'', PBool False),
       (''client_total_reviews'', PNone), (''client_avg_feedback'', PNone),
       (''is_sts_vector_search_result'', PNone), (''relevance_encoded'', PNone),
       (''is_applied'', PBool False)]"
  by (simp add: flat_eval)

lemma flatten_payload_second: "flatten_record fixed_repr no_float no_loads payload_second =
  Inr [(''job_id'', PStr ''123''), (''url'', PNone), (''title'', PNone),
       (''description'', PStr ''second text''), (''skills'', PList []),
       (''created_on'', PNone), (''published_on'', PNone), (''renewed_on'', PNone),
       (''duration_label'', PNone), (''connect_price'', PNone), (''job_type'', PNone),
       (''engagement'', PNone), (''proposals_tier'', PNone), (''tier_text'', PNone),
       (''fixed_budget'', PNone), (''weekly_budget'', PNone), (''hourly_budget_min'', PNone),
       (''hourly_budget_max'', PNone), (''currency'', PStr ''USD''), (''client_country'', PNone),
       (''client_total_spent'', PNone), (''client_payment_verified'', PBool False),
       (''client_total_reviews'', PNone), (''client_avg_feedback'', PNone),
       (''is_sts_vector_search_result'', PNone), (''relevance_encoded'', PNone),
       (''is_applied'', PBool False)]"
  by (simp add: flat_eval)

lemma parse_filename_metadata_example_value: "parse_filename_metadata ''20250810112529289-data ai engineer-page3.json'' =
     Inr [(''search_id'', PStr ''20250810112529289-data ai engineer-page3''),
          (''query_timestamp'', PStr ''2025-08-10T11:25:29.289000+00:00''),
          (''query'', PStr ''data ai engineer''), (''page'', PInt 3)]"
  by (simp add: filename_eval del: fold_replicate)

text \<open>The two loops with a set \<^verbatim>\<open>seen\<close> keep the first row of a key; the dict of
  \<^verbatim>\<open>_dedupe_jobs\<close> holds the last row stored under a key.\<close>

lemma unique_jobs_loop_first_wins: "unique_jobs_loop seen js = first_wins job_key seen js"
  by (induction js arbitrary: seen) (simp_all add: job_key_def Let_def)

lemma dedupe_search_results_first_wins:
  "dedupe_search_results_loop crepr seen rs = first_wins (link_key crepr) seen rs"
  by (induction rs arbitrary: seen) (simp_all add: link_key_def Let_def)

lemma first_wins_count:
  "length (filter (\<lambda>x. key x = Some k) (first_wins key seen rows)) =
     (if k \<notin> set seen \<and> (\<exists>r\<in>set rows. key r = Some k) then 1 else 0)"
proof (induction rows arbitrary: seen)
  case Nil
  then show ?case by simp
next
  case (Cons r rs)
  show ?case
  proof (cases "key r")
    case None
    then show ?thesis using Cons.IH [of seen] by auto
  next
    case (Some k')
    show ?thesis
    proof (cases "k' \<in> set seen")
      case True
      then show ?thesis using Some Cons.IH [of seen] by auto
    next
      case False
      then show ?thesis using Some Cons.IH [of "k' # seen"] by auto
    qed
  qed
qed

lemma first_wins_is_first:
  "r \<in> set (first_wins key seen rows) \<Longrightarrow>
   \<exists>k. key r = Some k \<and> k \<notin> set seen \<and> r = hd (filter (\<lambda>x. key x = Some k) rows)"
proof (induction rows arbitrary: seen)
  case Nil
  then show ?case by simp
next
  case (Cons a rs)
  show ?case
  proof (cases "key a")
    case None
    with Cons.prems have "r \<in> set (first_wins key seen rs)" by simp
    from Cons.IH [OF this] None show ?thesis by auto
  next
    case (Some k')
    show ?thesis
    proof (cases "k' \<in> set seen")
      case True
      with Cons.prems Some have "r \<in> set (first_wins key seen rs)" by simp
      from Cons.IH [OF this] True Some show ?thesis by auto
    next
      case False
      with Cons.prems Some have "r = a \<or> r \<in> set (first_wins key (k' # seen) rs)" by simp
      then show ?thesis
      proof
        assume "r = a"
        with Some False show ?thesis by auto
      next
        assume "r \<in> set (first_wins key (k' # seen) rs)"
        from Cons.IH [OF this] Some show ?thesis by auto
      qed
    qed
  qed
qed


lemma dedupe_jobs_loop_snoc:
  "dedupe_jobs_loop crepr by_id (rows @ [r]) =
     (case job_text_key crepr r of
        None \<Rightarrow> dedupe_jobs_loop crepr by_id rows
      | Some k \<Rightarrow> AList.update k r (dedupe_jobs_loop crepr by_id rows))"
  by (induction rows arbitrary: by_id) (simp_all add: job_text_key_def Let_def)

lemma dedupe_jobs_loop_distinct: "distinct (map fst (dedupe_jobs_loop crepr [] rows))"
proof (induction rows rule: rev_induct)
  case Nil
  then show ?case by simp
next
  case (snoc r rows)
  then show ?case
    by (cases "job_text_key crepr r") (simp_all add: dedupe_jobs_loop_snoc distinct_update)
qed

lemma dedupe_jobs_loop_map_of:
  "map_of (dedupe_jobs_loop crepr [] rows) k =
     (if \<exists>r\<in>set rows. job_text_key crepr r = Some k
      then Some (last (filter (\<lambda>x. job_text_key crepr x = Some k) rows)) else None)"
proof (induction rows rule: rev_induct)
  case Nil
  then show ?case by simp
next
  case (snoc r rows)
  show ?case
  proof (cases "job_text_key crepr r")
    case None
    then show ?thesis using snoc by (auto simp add: dedupe_jobs_loop_snoc)
  next
    case (Some k')
    then show ?thesis using snoc by (auto simp add: dedupe_jobs_loop_snoc update_conv')
  qed
qed

lemma last_filter_sat: "\<exists>r\<in>set rows. P r \<Longrightarrow> P (last (filter P rows))"
proof -
  assume "\<exists>r\<in>set rows. P r"
  then have "filter P rows \<noteq> []" by (simp add: filter_empty_conv)
  then have "last (filter P rows) \<in> set (filter P rows)" by (rule last_in_set)
  then show ?thesis by simp
qed

lemma dedupe_jobs_loop_entry:
  assumes "(k, r) \<in> set (dedupe_jobs_loop crepr [] rows)"
  shows "job_text_key crepr r = Some k \<and> r = last (filter (\<lambda>x. job_text_key crepr x = Some k) rows)"
proof -
  from assms have m: "map_of (dedupe_jobs_loop crepr [] rows) k = Some r"
    using dedupe_jobs_loop_distinct [of crepr rows] by simp
  then have ex: "\<exists>r\<in>set rows. job_text_key crepr r = Some k"
    unfolding dedupe_jobs_loop_map_of by (simp split: if_splits)
  with m have r: "r = last (filter (\<lambda>x. job_text_key crepr x = Some k) rows)"
    unfolding dedupe_jobs_loop_map_of by simp
  from last_filter_sat [where P = "\<lambda>x. job_text_key crepr x = Some k", OF ex] r show ?thesis by simp
qed

lemma distinct_fst_count:
  "distinct (map fst al) \<Longrightarrow>
   length (filter (\<lambda>p. fst p = k) al) = (if k \<in> fst ` set al then 1 else 0)"
proof (induction al)
  case Nil
  then show ?case by simp
next
  case (Cons p al)
  then show ?case by (cases p) (force simp add: filter_empty_conv)
qed

lemma dedupe_jobs_is_last:
  assumes "r \<in> set (dedupe_jobs crepr rows)"
  shows "\<exists>k. job_text_key crepr r = Some k \<and> r = last (filter (\<lambda>x. job_text_key crepr x = Some k) rows)"
proof -
  from assms obtain k where "(k, r) \<in> set (dedupe_jobs_loop crepr [] rows)"
    unfolding dedupe_jobs_def by auto
  from dedupe_jobs_loop_entry [OF this] show ?thesis by blast
qed

lemma dedupe_jobs_count:
  "length (filter (\<lambda>x. job_text_key crepr x = Some k) (dedupe_jobs crepr rows)) =
     (if \<exists>r\<in>set rows. job_text_key crepr r = Some k then 1 else 0)"
proof -
  let ?al = "dedupe_jobs_loop crepr [] rows"
  have "filter (\<lambda>x. job_text_key crepr x = Some k) (map snd ?al) =
          map snd (filter (\<lambda>p. fst p = k) ?al)"
    unfolding filter_map
  proof (rule arg_cong [where f = "map snd"], rule filter_cong [OF refl])
    fix p assume "p \<in> set ?al"
    then have "(fst p, snd p) \<in> set ?al" by simp
    from dedupe_jobs_loop_entry [OF this]
    show "((\<lambda>x. job_text_key crepr x = Some k) \<circ> snd) p = (fst p = k)" by auto
  qed
  then have "length (filter (\<lambda>x. job_text_key crepr x = Some k) (dedupe_jobs crepr rows)) =
               length (filter (\<lambda>p. fst p = k) ?al)"
    unfolding dedupe_jobs_def by simp
  also have "\<dots> = (if k \<in> fst ` set ?al then 1 else 0)"
    by (rule distinct_fst_count [OF dedupe_jobs_loop_distinct])
  also have "k \<in> fst ` set ?al \<longleftrightarrow> (\<exists>r\<in>set rows. job_text_key crepr r = Some k)"
  proof -
    have "(k \<in> fst ` set ?al) = (map_of ?al k \<noteq> None)" by (simp add: map_of_eq_None_iff)
    also have "\<dots> = (\<exists>r\<in>set rows. job_text_key crepr r = Some k)"
      unfolding dedupe_jobs_loop_map_of by simp
    finally show ?thesis .
  qed
  finally show ?thesis .
qed


lemma collect_all: "collect f xs = Inr ys \<Longrightarrow> \<forall>y\<in>set ys. \<exists>x\<in>set xs. f x = Inr y"
proof (induction xs arbitrary: ys)
  case Nil
  then show ?case by simp
next
  case (Cons x xs)
  from Cons.prems obtain y where y: "f x = Inr y"
      and r: "and_then (collect f xs) (\<lambda>ys. Inr (y # ys)) = Inr ys"
    by (auto elim: and_then_cases)
  from r obtain ys' where ys': "collect f xs = Inr ys'" "ys = y # ys'"
    by (auto elim: and_then_cases)
  from Cons.IH [OF ys'(1)] y ys'(2) show ?case by auto
qed

lemma process_json_file_unique_jobs:
  assumes "process_json_file crepr py_float loads filename path data = Inr (u, s, q)"
  shows "\<exists>js. u = unique_jobs_loop [] js
           \<and> (\<forall>j\<in>set js. dget j ''job_id'' = PNone \<or> (\<exists>t. dget j ''job_id'' = PStr t))"
proof -
  from assms obtain items js where
    c: "collect (flatten_record crepr py_float loads)
          (concat (map (\<lambda>r. case r of PDict d \<Rightarrow> [d] | _ \<Rightarrow> []) items)) = Inr js"
    and u: "u = unique_jobs_loop [] js"
    unfolding process_json_file_def Let_def
    by (elim and_then_cases) simp
  from collect_all [OF c] flatten_record_shape have
    "\<forall>j\<in>set js. dget j ''job_id'' = PNone \<or> (\<exists>t. dget j ''job_id'' = PStr t)"
    by blast
  with u show ?thesis by blast
qed


lemma job_text_key_iff:
  "job_text_key crepr x = Some k \<longleftrightarrow> truthy (dget x ''job_id'') \<and> pystr crepr (dget x ''job_id'') = k"
  by (auto simp add: job_text_key_def)

lemma job_key_iff: "job_key x = Some k \<longleftrightarrow> truthy (dget x ''job_id'') \<and> dget x ''job_id'' = k"
  by (auto simp add: job_key_def)

lemma link_key_iff:
  "link_key crepr x = Some k \<longleftrightarrow>
     truthy (dget x ''search_id'') \<and> truthy (dget x ''job_id'')
     \<and> (pystr crepr (dget x ''search_id''), pystr crepr (dget x ''job_id'')) = k"
  by (auto simp add: link_key_def)

lemma dedupe_jobs_last:
  "(\<forall>k. length (filter (\<lambda>r. pystr crepr (dget r ''job_id'') = k) (dedupe_jobs crepr rows))
        = (if \<exists>x\<in>set rows. truthy (dget x ''job_id'') \<and> pystr crepr (dget x ''job_id'') = k then 1 else 0))
   \<and> (\<forall>r\<in>set (dedupe_jobs crepr rows). truthy (dget r ''job_id'')
        \<and> r = last (filter (\<lambda>x. truthy (dget x ''job_id'')
                  \<and> pystr crepr (dget x ''job_id'') = pystr crepr (dget r ''job_id'')) rows))"
proof (intro conjI allI ballI)
  fix k
  have "filter (\<lambda>r. pystr crepr (dget r ''job_id'') = k) (dedupe_jobs crepr rows)
      = filter (\<lambda>r. job_text_key crepr r = Some k) (dedupe_jobs crepr rows)"
  proof (rule filter_cong [OF refl])
    fix r assume "r \<in> set (dedupe_jobs crepr rows)"
    from dedupe_jobs_is_last [OF this]
    show "(pystr crepr (dget r ''job_id'') = k) = (job_text_key crepr r = Some k)"
      by (auto simp add: job_text_key_iff)
  qed
  then show "length (filter (\<lambda>r. pystr crepr (dget r ''job_id'') = k) (dedupe_jobs crepr rows))
        = (if \<exists>x\<in>set rows. truthy (dget x ''job_id'') \<and> pystr crepr (dget x ''job_id'') = k then 1 else 0)"
    using dedupe_jobs_count [of crepr k rows] by (simp only: job_text_key_iff)
next
  fix r assume r: "r \<in> set (dedupe_jobs crepr rows)"
  from dedupe_jobs_is_last [OF r] show "truthy (dget r ''job_id'')"
    by (auto simp add: job_text_key_iff)
next
  fix r assume r: "r \<in> set (dedupe_jobs crepr rows)"
  from dedupe_jobs_is_last [OF r]
  show "r = last (filter (\<lambda>x. truthy (dget x ''job_id'')
                  \<and> pystr crepr (dget x ''job_id'') = pystr crepr (dget r ''job_id'')) rows)"
    by (auto simp add: job_text_key_iff)
qed

lemma unique_jobs_first:
  "(\<forall>k. length (filter (\<lambda>r. dget r ''job_id'' = k) (unique_jobs_loop [] js))
        = (if truthy k \<and> (\<exists>x\<in>set js. dget x ''job_id'' = k) then 1 else 0))
   \<and> (\<forall>r\<in>set (unique_jobs_loop [] js). truthy (dget r ''job_id'')
        \<and> r = hd (filter (\<lambda>x. dget x ''job_id'' = dget r ''job_id'') js))"
proof (intro conjI allI ballI)
  fix k
  have "filter (\<lambda>r. dget r ''job_id'' = k) (unique_jobs_loop [] js)
      = filter (\<lambda>r. job_key r = Some k) (unique_jobs_loop [] js)"
  proof (rule filter_cong [OF refl])
    fix r assume "r \<in> set (unique_jobs_loop [] js)"
    then have "r \<in> set (first_wins job_key [] js)" by (simp only: unique_jobs_loop_first_wins)
    from first_wins_is_first [OF this]
    show "(dget r ''job_id'' = k) = (job_key r = Some k)"
      by (auto simp add: job_key_iff)
  qed
  then show "length (filter (\<lambda>r. dget r ''job_id'' = k) (unique_jobs_loop [] js))
        = (if truthy k \<and> (\<exists>x\<in>set js. dget x ''job_id'' = k) then 1 else 0)"
    using first_wins_count [of job_key k "[]" js]
    by (auto simp add: unique_jobs_loop_first_wins job_key_iff)
next
  fix r assume "r \<in> set (unique_jobs_loop [] js)"
  then have "r \<in> set (first_wins job_key [] js)" by (simp only: unique_jobs_loop_first_wins)
  from first_wins_is_first [OF this] show "truthy (dget r ''job_id'')"
    by (auto simp add: job_key_iff)
next
  fix r assume "r \<in> set (unique_jobs_loop [] js)"
  then have "r \<in> set (first_wins job_key [] js)" by (simp only: unique_jobs_loop_first_wins)
  from first_wins_is_first [OF this] obtain k where
    k: "job_key r = Some k" "r = hd (filter (\<lambda>x. job_key x = Some k) js)" by blast
  from k(1) have t: "truthy (dget r ''job_id'')" "dget r ''job_id'' = k" by (auto simp add: job_key_iff)
  have "filter (\<lambda>x. job_key x = Some k) js = filter (\<lambda>x. dget x ''job_id'' = dget r ''job_id'') js"
    using t by (intro filter_cong [OF refl]) (auto simp add: job_key_iff)
  with k(2) show "r = hd (filter (\<lambda>x. dget x ''job_id'' = dget r ''job_id'') js)" by simp
qed

lemma dedupe_search_results_first:
  "(\<forall>k. length (filter (\<lambda>r. (pystr crepr (dget r ''search_id''), pystr crepr (dget r ''job_id'')) = k)
                  (dedupe_search_results crepr links))
        = (if \<exists>x\<in>set links. truthy (dget x ''search_id'') \<and> truthy (dget x ''job_id'')
                \<and> (pystr crepr (dget x ''search_id''), pystr crepr (dget x ''job_id'')) = k then 1 else 0))
   \<and> (\<forall>r\<in>set (dedupe_search_results crepr links). truthy (dget r ''search_id'') \<and> truthy (dget r ''job_id'')
        \<and> r = hd (filter (\<lambda>x. truthy (dget x ''search_id'') \<and> truthy (dget x ''job_id'')
                  \<and> (pystr crepr (dget x ''search_id''), pystr crepr (dget x ''job_id''))
                    = (pystr crepr (dget r ''search_id''), pystr crepr (dget r ''job_id''))) links))"
proof (intro conjI allI ballI)
  fix k
  have "filter (\<lambda>r. (pystr crepr (dget r ''search_id''), pystr crepr (dget r ''job_id'')) = k)
          (dedupe_search_results crepr links)
      = filter (\<lambda>r. link_key crepr r = Some k) (dedupe_search_results crepr links)"
  proof (rule filter_cong [OF refl])
    fix r assume "r \<in> set (dedupe_search_results crepr links)"
    then have "r \<in> set (first_wins (link_key crepr) [] links)"
      by (simp only: dedupe_search_results_def dedupe_search_results_first_wins)
    from first_wins_is_first [OF this]
    show "((pystr crepr (dget r ''search_id''), pystr crepr (dget r ''job_id'')) = k) = (link_key crepr r = Some k)"
      by (auto simp add: link_key_iff)
  qed
  then show "length (filter (\<lambda>r. (pystr crepr (dget r ''search_id''), pystr crepr (dget r ''job_id'')) = k)
                  (dedupe_search_results crepr links))
        = (if \<exists>x\<in>set links. truthy (dget x ''search_id'') \<and> truthy (dget x ''job_id'')
                \<and> (pystr crepr (dget x ''search_id''), pystr crepr (dget x ''job_id'')) = k then 1 else 0)"
    using first_wins_count [of "link_key crepr" k "[]" links]
    by (simp only: dedupe_search_results_def dedupe_search_results_first_wins link_key_iff) simp
next
  fix r assume "r \<in> set (dedupe_search_results crepr links)"
  then have "r \<in> set (first_wins (link_key crepr) [] links)"
    by (simp only: dedupe_search_results_def dedupe_search_results_first_wins)
  from first_wins_is_first [OF this] show "truthy (dget r ''search_id'')"
    by (auto simp add: link_key_iff)
next
  fix r assume "r \<in> set (dedupe_search_results crepr links)"
  then have "r \<in> set (first_wins (link_key crepr) [] links)"
    by (simp only: dedupe_search_results_def dedupe_search_results_first_wins)
  from first_wins_is_first [OF this] show "truthy (dget r ''job_id'')"
    by (auto simp add: link_key_iff)
next
  fix r assume "r \<in> set (dedupe_search_results crepr links)"
  then have "r \<in> set (first_wins (link_key crepr) [] links)"
    by (simp only: dedupe_search_results_def dedupe_search_results_first_wins)
  from first_wins_is_first [OF this] obtain k where
    k: "link_key crepr r = Some k" "r = hd (filter (\<lambda>x. link_key crepr x = Some k) links)" by blast
  from k(1) have t: "(pystr crepr (dget r ''search_id''), pystr crepr (dget r ''job_id'')) = k"
    by (auto simp add: link_key_iff)
  show "r = hd (filter (\<lambda>x. truthy (dget x ''search_id'') \<and> truthy (dget x ''job_id'')
                  \<and> (pystr crepr (dget x ''search_id''), pystr crepr (dget x ''job_id''))
                    = (pystr crepr (dget r ''search_id''), pystr crepr (dget r ''job_id''))) links)"
    using k(2) unfolding t link_key_iff .
qed

text \<open>
  Claim C2, as the code has it. Each of the three de-duplications keeps exactly one row
  per distinct key among the rows that have a key, and no other row. Which one differs:
  \<^verbatim>\<open>_dedupe_jobs\<close> (key \<^verbatim>\<open>str(job_id)\<close>) keeps the last row with that key in input order;
  \<^verbatim>\<open>_dedupe_search_results\<close> (key the pair of \<^verbatim>\<open>str(search_id)\<close> and \<^verbatim>\<open>str(job_id)\<close>) and the
  loop inside \<^verbatim>\<open>process_json_file\<close> (key \<^verbatim>\<open>job_id\<close>, a text or null after normalization) keep
  the first. The jobs \<^verbatim>\<open>process_json_file\<close> returns are that loop run on normalized records.
\<close>

theorem dedupe_first_or_last:
  "(\<forall>k. length (filter (\<lambda>r. pystr crepr (dget r ''job_id'') = k) (dedupe_jobs crepr rows))
        = (if \<exists>x\<in>set rows. truthy (dget x ''job_id'') \<and> pystr crepr (dget x ''job_id'') = k then 1 else 0))
   \<and> (\<forall>r\<in>set (dedupe_jobs crepr rows). truthy (dget r ''job_id'')
        \<and> r = last (filter (\<lambda>x. truthy (dget x ''job_id'')
                  \<and> pystr crepr (dget x ''job_id'') = pystr crepr (dget r ''job_id'')) rows))
   \<and> (\<forall>k. length (filter (\<lambda>r. (pystr crepr (dget r ''search_id''), pystr crepr (dget r ''job_id'')) = k)
                  (dedupe_search_results crepr links))
        = (if \<exists>x\<in>set links. truthy (dget x ''search_id'') \<and> truthy (dget x ''job_id'')
                \<and> (pystr crepr (dget x ''search_id''), pystr crepr (dget x ''job_id'')) = k then 1 else 0))
   \<and> (\<forall>r\<in>set (dedupe_search_results crepr links). truthy (dget r ''search_id'') \<and> truthy (dget r ''job_id'')
        \<and> r = hd (filter (\<lambda>x. truthy (dget x ''search_id'') \<and> truthy (dget x ''job_id'')
                  \<and> (pystr crepr (dget x ''search_id''), pystr crepr (dget x ''job_id''))
                    = (pystr crepr (dget r ''search_id''), pystr crepr (dget r ''job_id''))) links))
   \<and> ((\<forall>j\<in>set js. dget j ''job_id'' = PNone \<or> (\<exists>t. dget j ''job_id'' = PStr t)) \<longrightarrow>
        (\<forall>k. length (filter (\<lambda>r. dget r ''job_id'' = k) (unique_jobs_loop [] js))
            = (if truthy k \<and> (\<exists>x\<in>set js. dget x ''job_id'' = k) then 1 else 0))
        \<and> (\<forall>r\<in>set (unique_jobs_loop [] js). truthy (dget r ''job_id'')
            \<and> r = hd (filter (\<lambda>x. dget x ''job_id'' = dget r ''job_id'') js)))
   \<and> (process_json_file crepr py_float loads filename path data = Inr (unique_jobs, search_results_rows, scrape_req) \<longrightarrow>
        (\<exists>flattened. unique_jobs = unique_jobs_loop [] flattened
           \<and> (\<forall>j\<in>set flattened. dget j ''job_id'' = PNone \<or> (\<exists>t. dget j ''job_id'' = PStr t))))"
  using dedupe_jobs_last [of crepr rows] dedupe_search_results_first [of crepr links]
    unique_jobs_first [of js]
    process_json_file_unique_jobs [of crepr py_float loads filename path data unique_jobs search_results_rows scrape_req]
  by (intro conjI impI) blast+

theorem dedupe_first_or_last_witness:
  "dedupe_jobs fixed_repr [job_first, job_second] = [job_second]
   \<and> length (filter (\<lambda>r. pystr fixed_repr (dget r ''job_id'') = ''123'')
        (dedupe_jobs fixed_repr [job_first, job_second])) = 1
   \<and> dedupe_search_results fixed_repr [link_first, link_second] = [link_first]
   \<and> dget job_first ''job_id'' = PStr ''123'' \<and> dget job_second ''job_id'' = PStr ''123''
   \<and> unique_jobs_loop [] [job_first, job_second] = [job_first]
   \<and> length (filter (\<lambda>r. dget r ''job_id'' = PStr ''123'') (unique_jobs_loop [] [job_first, job_second])) = 1
   \<and> (\<exists>u s q. process_json_file fixed_repr no_float no_loads ''20250810112529289-data ai engineer-page3.json'' ''p''
                  (PList [PDict payload_first, PDict payload_second]) = Inr (u, s, q)
         \<and> map (\<lambda>j. (dget j ''job_id'', dget j ''description'')) u = [(PStr ''123'', PStr ''first text'')])"
  using dedupe_first_or_last [where crepr = fixed_repr and rows = "[job_first, job_second]"
      and links = "[link_first, link_second]" and js = "[job_first, job_second]"
      and py_float = no_float and loads = no_loads
      and filename = "''20250810112529289-data ai engineer-page3.json''" and path = "''p''"
      and data = "PList [PDict payload_first, PDict payload_second]"]
  by (simp add: dedupe_jobs_def dedupe_search_results_def job_first_def job_second_def link_first_def
      link_second_def dget_def process_json_file_def parse_filename_metadata_example_value
      flatten_payload_first flatten_payload_second and_then_def)

text \<open>
  The claim as the specification states it fails inside a batch: of two payloads with the
  id 123, \<^verbatim>\<open>process_json_file\<close> returns the one record with the description of the first,
  not of the second; and of two search result rows with the same pair
  \<^verbatim>\<open>_dedupe_search_results\<close> keeps the first.
\<close>

theorem dedupe_first_or_last_counterexample:
  "map (\<lambda>j. (dget j ''job_id'', dget j ''description''))
     (case process_json_file fixed_repr no_float no_loads ''20250810112529289-data ai engineer-page3.json'' ''p''
             (PList [PDict payload_first, PDict payload_second]) of
        Inr (unique_jobs, search_results_rows, scrape_req) \<Rightarrow> unique_jobs
      | Inl e \<Rightarrow> [])
     = [(PStr ''123'', PStr ''first text'')]
   \<and> dget payload_second ''description'' = PStr ''second text''
   \<and> dedupe_search_results fixed_repr [link_first, link_second] = [link_first]
   \<and> link_second \<noteq> link_first"
proof -
  have "map (\<lambda>j. (dget j ''job_id'', dget j ''description''))
     (case process_json_file fixed_repr no_float no_loads ''20250810112529289-data ai engineer-page3.json'' ''p''
             (PList [PDict payload_first, PDict payload_second]) of
        Inr (unique_jobs, search_results_rows, scrape_req) \<Rightarrow> unique_jobs
      | Inl e \<Rightarrow> [])
     = [(PStr ''123'', PStr ''first text'')]"
    by (simp add: dget_def process_json_file_def parse_filename_metadata_example_value
        flatten_payload_first flatten_payload_second and_then_def)
  moreover have "dget payload_second ''description'' = PStr ''second text''"
    by (simp add: payload_second_def dget_def)
  moreover have "dedupe_search_results fixed_repr [link_first, link_second] = [link_first]"
    by (simp add: dedupe_search_results_def link_first_def link_second_def dget_def)
  moreover have "link_second \<noteq> link_first"
    by (simp add: link_first_def link_second_def)
  ultimately show ?thesis by (intro conjI)
qed

end
